theory Spec2Isabelle
  imports Complex_Main
begin

section \<open>Data model of the stoat simulation (pheromone/calculation.py)\<close>

text \<open>
  The three structured numpy dtypes become records. The float64 fields are idealised as
  \<open>real\<close>; the int32 fields are \<open>int\<close>, and every store of a 64-bit value into
  an int32 field goes through \<open>int32\<close>, the two's-complement wrap-around.
  The fields \<open>x\<close>, \<open>y\<close> and \<open>id\<close> of STOAT_DTYPE are called \<open>xpos\<close>,
  \<open>ypos\<close> and \<open>stoat_id\<close>; the two \<open>ndays\<close> fields are told apart by a prefix.
\<close>

record stoat =
  deleted :: bool
  male :: bool
  pregnant :: bool
  xpos :: real
  ypos :: real
  home_x :: real
  home_y :: real
  stoat_id :: int
  pregnant_day :: int
  parentid :: int
  bearingT_1 :: real
  homerange :: bool

record pheromone =
  ph_x :: real
  ph_y :: real

record interaction =
  pheromoneid :: int
  stoatid :: int
  i_ndays :: int

record mating =
  maleid :: int
  femaleid :: int
  m_ndays :: int

definition INITIAL_STOAT_ARRAY_SIZE :: nat where
  "INITIAL_STOAT_ARRAY_SIZE = 1000"

definition int32 :: "int \<Rightarrow> int" where
  "int32 v = (v + 2 ^ 31) mod 2 ^ 32 - 2 ^ 31"

text \<open>
  Every raise of the compiled code is a value. The functions are compiled with numba's
  \<open>njit\<close>, which does no bounds checking. \<open>IndexOutOfBounds\<close> stands for a write
  outside an array: it overwrites memory the array does not own, and the model follows
  the run no further (plain Python would raise IndexError). A read outside an array
  raises nothing: it returns what the memory holds there and the run goes on, see
  \<open>maskRead\<close>. \<open>OutOfFuel\<close> is the model's value for a rejection loop that has not
  ended within the given number of rounds.
\<close>

datatype error =
    UnableToAddMating
  | UnableToAddInteraction
  | TooManyStoats
  | TooManyTmpItems
  | IndexOutOfBounds
  | ZeroDivision
  | BinomialBadP
  | PoissonBadLam
  | UnboundLocal
  | OutOfFuel

subsection \<open>The random source\<close>

text \<open>
  The calls into \<open>np.random\<close> read an oracle: a record of samplers, each a function of
  the position in the draw sequence (and of the distribution's parameters). A theorem
  about all oracles is a theorem about all outcomes of the draws.
\<close>

record rng =
  rnd_random :: "nat \<Rightarrow> real"
  rnd_uniform :: "nat \<Rightarrow> real \<Rightarrow> real \<Rightarrow> real"
  rnd_bernoulli :: "nat \<Rightarrow> real \<Rightarrow> bool"
  rnd_poisson :: "nat \<Rightarrow> real \<Rightarrow> nat"
  rnd_weibull :: "nat \<Rightarrow> real \<Rightarrow> real"
  rnd_vonmises :: "nat \<Rightarrow> real \<Rightarrow> real \<Rightarrow> real"
  rnd_multinomial :: "nat \<Rightarrow> real list \<Rightarrow> nat"

text \<open>
  \<open>np.random.binomial(1, p) == 1\<close>: one Bernoulli trial. The library rejects a
  \<open>p\<close> outside [0, 1], returns 0 for \<open>p = 0\<close> and 1 for \<open>p = 1\<close>; in between
  the outcome is the oracle's.
\<close>

definition binomial1 :: "rng \<Rightarrow> nat \<Rightarrow> real \<Rightarrow> error + bool" where
  "binomial1 R k p =
     (if \<not> (0 \<le> p \<and> p \<le> 1) then Inl BinomialBadP
      else if p = 0 then Inr False
      else if p = 1 then Inr True
      else Inr (rnd_bernoulli R k p))"

definition poisson1 :: "rng \<Rightarrow> nat \<Rightarrow> real \<Rightarrow> error + nat" where
  "poisson1 R k lam = (if lam < 0 then Inl PoissonBadLam else Inr (rnd_poisson R k lam))"

subsection \<open>Geometry\<close>

definition dist2d :: "real \<Rightarrow> real \<Rightarrow> real" where
  "dist2d xdist ydist = sqrt (xdist * xdist + ydist * ydist)"

text \<open>\<open>np.round\<close> rounds to the nearest integer, halves to the even neighbour.\<close>

definition npRound :: "real \<Rightarrow> int" where
  "npRound v =
     (let f = \<lfloor>v\<rfloor>; d = v - of_int f
      in if d < 1 / 2 then f else if 1 / 2 < d then f + 1 else if even f then f else f + 1)"

text \<open>
  The land mask is a two-dimensional array stored row by row; \<open>cells\<close> are its rows.
  \<open>mask[yPix, xPix]\<close> is compiled without a bounds check: a negative index counts from
  the end of its axis, and the element is read at the offset \<open>row * ncols + column\<close>
  from the start of the buffer. An offset within the buffer is a cell of the mask (of
  the next row, when only the column is too large); what an offset outside the buffer
  holds is not the mask's: \<open>beyond\<close> stands for the memory around the buffer.
\<close>

record raster =
  cells :: "int list list"
  beyond :: "int \<Rightarrow> int"

definition maskRead :: "raster \<Rightarrow> int \<Rightarrow> int \<Rightarrow> int" where
  "maskRead maskA yPix xPix =
     (let nrows = int (length (cells maskA));
          ncols = (case cells maskA of [] \<Rightarrow> 0 | r # rs \<Rightarrow> int (length r));
          row = (if yPix < 0 then yPix + nrows else yPix);
          col = (if xPix < 0 then xPix + ncols else xPix);
          off = row * ncols + col
      in if 0 \<le> off \<and> off < int (length (concat (cells maskA)))
         then concat (cells maskA) ! nat off
         else beyond maskA off)"

definition checkLocationIsOnIsland ::
  "raster \<Rightarrow> real \<Rightarrow> real \<Rightarrow> real \<Rightarrow> real \<Rightarrow> real \<Rightarrow> real \<Rightarrow> real \<Rightarrow> error + bool" where
  "checkLocationIsOnIsland maskA tlx tly brx bry pixsize x y =
     (if x \<ge> tlx \<and> x \<le> brx \<and> y \<le> tly \<and> y \<ge> bry then
        (if pixsize = 0 then Inl ZeroDivision
         else
           (let xPix = npRound ((x - tlx) / pixsize);
                yPix = npRound ((tly - y) / pixsize)
            in Inr (maskRead maskA yPix xPix > 0)))
      else Inr False)"

subsection \<open>Recording a habituation: doPheromoneInteraction\<close>

text \<open>
  The slot search of lines 298-305: the first entry with \<open>stoatid = -1\<close> is overwritten;
  \<open>None\<close> when the scan ends with \<open>added\<close> still false.
\<close>

fun recordInteraction :: "interaction list \<Rightarrow> int \<Rightarrow> int \<Rightarrow> int \<Rightarrow> interaction list option" where
  "recordInteraction [] sid p d = None"
| "recordInteraction (e # es) sid p d =
     (if stoatid e = -1
      then Some (e\<lparr>stoatid := sid, pheromoneid := p, i_ndays := d\<rparr> # es)
      else map_option ((#) e) (recordInteraction es sid p d))"

text \<open>
  The loop over the stations. The scan of lines 290-294 compares every entry with
  (stoatid, p) and, on a match, executes \<open>continue\<close>, which continues that scan itself:
  it changes no variable and leaves the loop over the stations where it is, so it has
  no counterpart below.
\<close>

fun doPheromoneInteraction_loop ::
  "real \<Rightarrow> real \<Rightarrow> int \<Rightarrow> pheromone list \<Rightarrow> real \<Rightarrow> int \<Rightarrow> nat list \<Rightarrow> interaction list
   \<Rightarrow> error + interaction list" where
  "doPheromoneInteraction_loop x y sid pheromoneArray encounterDistance habituationDays [] pia = Inr pia"
| "doPheromoneInteraction_loop x y sid pheromoneArray encounterDistance habituationDays (p # ps) pia =
     (if dist2d (ph_x (pheromoneArray ! p) - x) (ph_y (pheromoneArray ! p) - y) < encounterDistance
      then (case recordInteraction pia sid (int32 (int p)) (int32 habituationDays) of
              None \<Rightarrow> Inl UnableToAddInteraction
            | Some pia' \<Rightarrow> Inr pia')
      else doPheromoneInteraction_loop x y sid pheromoneArray encounterDistance habituationDays ps pia)"

definition doPheromoneInteraction ::
  "real \<Rightarrow> real \<Rightarrow> int \<Rightarrow> stoat list \<Rightarrow> nat \<Rightarrow> pheromone list \<Rightarrow> real \<Rightarrow> interaction list \<Rightarrow> int
   \<Rightarrow> error + interaction list" where
  "doPheromoneInteraction x y sid stoatArray nStoats pheromoneArray encounterDistance pia habituationDays =
     doPheromoneInteraction_loop x y sid pheromoneArray encounterDistance habituationDays
       [0 ..< length pheromoneArray] pia"

subsection \<open>Recording a mating: doMaleMating\<close>

text \<open>The slot search of lines 259-267, on the mating table.\<close>

fun recordMating :: "mating list \<Rightarrow> int \<Rightarrow> int \<Rightarrow> int \<Rightarrow> mating list option" where
  "recordMating [] sid fid d = None"
| "recordMating (e # es) sid fid d =
     (if maleid e = -1
      then Some (e\<lparr>maleid := sid, femaleid := fid, m_ndays := d\<rparr> # es)
      else map_option ((#) e) (recordMating es sid fid d))"

text \<open>
  Lines 252-257: after the female in slot \<open>i\<close> became pregnant, every slot whose
  parentid is her id and that is not male draws its own Bernoulli trial (the draw is
  the last operand of the \<open>and\<close>, so it happens only for those slots).
\<close>

fun offspringPregnant ::
  "rng \<Rightarrow> int \<Rightarrow> real \<Rightarrow> nat \<Rightarrow> nat list \<Rightarrow> stoat list \<times> nat \<Rightarrow> error + (stoat list \<times> nat)" where
  "offspringPregnant R day probPregnacy i [] (sa, rp) = Inr (sa, rp)"
| "offspringPregnant R day probPregnacy i (n # ns) (sa, rp) =
     (if parentid (sa ! n) = stoat_id (sa ! i) \<and> \<not> male (sa ! n) then
        (case binomial1 R rp probPregnacy of
           Inl e \<Rightarrow> Inl e
         | Inr b \<Rightarrow>
             offspringPregnant R day probPregnacy i ns
               (if b then sa[n := (sa ! n)\<lparr>pregnant := True, pregnant_day := int32 day\<rparr>] else sa,
                rp + 1))
      else offspringPregnant R day probPregnacy i ns (sa, rp))"

text \<open>Lines 246-257: the pregnancy of the encountered female and of her offspring.\<close>

definition impregnate ::
  "rng \<Rightarrow> nat \<Rightarrow> int \<Rightarrow> real \<Rightarrow> nat \<Rightarrow> stoat list \<times> nat \<Rightarrow> error + (stoat list \<times> nat)" where
  "impregnate R nStoats day probPregnacy i s =
     (case s of (sa, rp) \<Rightarrow>
        if \<not> pregnant (sa ! i) then
          (case binomial1 R rp probPregnacy of
             Inl e \<Rightarrow> Inl e
           | Inr b \<Rightarrow>
               if b then
                 offspringPregnant R day probPregnacy i [0 ..< nStoats]
                   (sa[i := (sa ! i)\<lparr>pregnant := True, pregnant_day := int32 day\<rparr>], rp + 1)
               else Inr (sa, rp + 1))
        else Inr (sa, rp))"

definition alreadyMatedWith :: "mating list \<Rightarrow> int \<Rightarrow> int \<Rightarrow> bool" where
  "alreadyMatedWith matingArray sid fid =
     list_ex (\<lambda>m. maleid m = sid \<and> femaleid m = fid) matingArray"

fun doMaleMating_loop ::
  "rng \<Rightarrow> real \<Rightarrow> real \<Rightarrow> int \<Rightarrow> nat \<Rightarrow> real \<Rightarrow> int \<Rightarrow> int \<Rightarrow> real \<Rightarrow> nat list
   \<Rightarrow> stoat list \<times> mating list \<times> nat \<Rightarrow> error + (bool \<times> stoat list \<times> mating list \<times> nat)" where
  "doMaleMating_loop R x y sid nStoats encounterDistance habituationDays day probPregnacy []
     (sa, ma, rp) = Inr (False, sa, ma, rp)"
| "doMaleMating_loop R x y sid nStoats encounterDistance habituationDays day probPregnacy (i # rest)
     (sa, ma, rp) =
     (if \<not> deleted (sa ! i) \<and> \<not> male (sa ! i) \<and> parentid (sa ! i) = -1 then
        (if alreadyMatedWith ma sid (stoat_id (sa ! i)) then
           doMaleMating_loop R x y sid nStoats encounterDistance habituationDays day probPregnacy rest
             (sa, ma, rp)
         else if dist2d (x - xpos (sa ! i)) (y - ypos (sa ! i)) < encounterDistance then
           (case impregnate R nStoats day probPregnacy i (sa, rp) of
              Inl e \<Rightarrow> Inl e
            | Inr (sa', rp') \<Rightarrow>
                (case recordMating ma sid (stoat_id (sa' ! i)) (int32 habituationDays) of
                   None \<Rightarrow> Inl UnableToAddMating
                 | Some ma' \<Rightarrow> Inr (True, sa', ma', rp')))
         else
           doMaleMating_loop R x y sid nStoats encounterDistance habituationDays day probPregnacy rest
             (sa, ma, rp))
      else
        doMaleMating_loop R x y sid nStoats encounterDistance habituationDays day probPregnacy rest
          (sa, ma, rp))"

definition doMaleMating ::
  "rng \<Rightarrow> real \<Rightarrow> real \<Rightarrow> int \<Rightarrow> stoat list \<Rightarrow> nat \<Rightarrow> real \<Rightarrow> mating list \<Rightarrow> int \<Rightarrow> int \<Rightarrow> real \<Rightarrow> nat
   \<Rightarrow> error + (bool \<times> stoat list \<times> mating list \<times> nat)" where
  "doMaleMating R x y sid stoatArray nStoats encounterDistance matingArray habituationDays day
     probPregnacy rp =
     doMaleMating_loop R x y sid nStoats encounterDistance habituationDays day probPregnacy
       [0 ..< nStoats] (stoatArray, matingArray, rp)"

subsection \<open>Births: doBirth\<close>

text \<open>
  The eleven assignments that fill a slot for a newborn (lines 327-338, and again
  345-356). The slot's record is updated field by field, as the code does.
\<close>

definition newKit :: "stoat \<Rightarrow> real \<Rightarrow> real \<Rightarrow> bool \<Rightarrow> int \<Rightarrow> int \<Rightarrow> stoat" where
  "newKit old x y is_male cid pid =
     old\<lparr>deleted := False, xpos := x, ypos := y, home_x := x, home_y := y, male := is_male,
         pregnant := False, pregnant_day := -1, stoat_id := int32 cid, homerange := False,
         parentid := pid\<rparr>"

text \<open>The first loop: \<open>while nKits > 0 and i < nStoats\<close>, reusing deleted slots.\<close>

fun reuseDeleted ::
  "rng \<Rightarrow> real \<Rightarrow> real \<Rightarrow> nat \<Rightarrow> nat list \<Rightarrow> stoat list \<times> nat \<times> int \<times> nat
   \<Rightarrow> stoat list \<times> nat \<times> int \<times> nat" where
  "reuseDeleted R x y mother [] s = s"
| "reuseDeleted R x y mother (i # rest) (sa, nKits, cid, rp) =
     (if nKits > 0 then
        (if deleted (sa ! i) then
           reuseDeleted R x y mother rest
             (sa[i := newKit (sa ! i) x y (rnd_random R rp < 0.5) cid (stoat_id (sa ! mother))],
              nKits - 1, cid + 1, rp + 1)
         else reuseDeleted R x y mother rest (sa, nKits, cid, rp))
      else (sa, nKits, cid, rp))"

text \<open>
  The second loop: \<open>while nKits > 0\<close>, writing at index \<open>nStoats\<close>, counting up and
  only then comparing the count with the capacity.
\<close>

fun appendKits ::
  "rng \<Rightarrow> real \<Rightarrow> real \<Rightarrow> nat \<Rightarrow> nat \<Rightarrow> stoat list \<times> nat \<times> int \<times> nat
   \<Rightarrow> error + (stoat list \<times> nat \<times> int \<times> nat)" where
  "appendKits R x y mother 0 s = Inr s"
| "appendKits R x y mother (Suc k) (sa, nStoats, cid, rp) =
     (if nStoats < length sa then
        (let sa' = sa[nStoats := newKit (sa ! nStoats) x y (rnd_random R rp < 0.5) cid
                                   (stoat_id (sa ! mother))]
         in if nStoats + 1 > INITIAL_STOAT_ARRAY_SIZE then Inl TooManyStoats
            else appendKits R x y mother k (sa', nStoats + 1, cid + 1, rp + 1))
      else Inl IndexOutOfBounds)"

definition doBirth ::
  "rng \<Rightarrow> stoat list \<Rightarrow> nat \<Rightarrow> nat \<Rightarrow> real \<Rightarrow> int \<Rightarrow> nat \<Rightarrow> error + (stoat list \<times> nat \<times> int \<times> nat)" where
  "doBirth R stoatArray nStoats mother meanRecruits Current_Id rp =
     (let x = xpos (stoatArray ! mother); y = ypos (stoatArray ! mother)
      in case poisson1 R rp meanRecruits of
           Inl e \<Rightarrow> Inl e
         | Inr nKits \<Rightarrow>
             (case reuseDeleted R x y mother [0 ..< nStoats] (stoatArray, nKits, Current_Id, rp + 1) of
                (sa1, nKits1, cid1, rp1) \<Rightarrow>
                  (case appendKits R x y mother nKits1 (sa1, nStoats, cid1, rp1) of
                     Inl e \<Rightarrow> Inl e
                   | Inr (sa2, nStoats2, cid2, rp2) \<Rightarrow>
                       Inr (sa2[mother := (sa2 ! mother)\<lparr>pregnant := False, pregnant_day := -1\<rparr>],
                            nStoats2, cid2, rp2))))"

subsection \<open>Random points on land and the initial population\<close>

text \<open>
  \<open>createRandomLocationOnIsland\<close> draws points until one passes the membership test.
  The loop has no bound in the code; the model gives it \<open>fuel\<close> rounds.
\<close>

fun createRandomLocationOnIsland ::
  "rng \<Rightarrow> nat \<Rightarrow> raster \<Rightarrow> real \<Rightarrow> real \<Rightarrow> real \<Rightarrow> real \<Rightarrow> real \<Rightarrow> nat
   \<Rightarrow> error + (real \<times> real \<times> nat)" where
  "createRandomLocationOnIsland R 0 maskA tlx tly brx bry pixsize rp = Inl OutOfFuel"
| "createRandomLocationOnIsland R (Suc fuel) maskA tlx tly brx bry pixsize rp =
     (let x = tlx + rnd_random R rp * (brx - tlx);
          y = bry + rnd_random R (rp + 1) * (tly - bry)
      in case checkLocationIsOnIsland maskA tlx tly brx bry pixsize x y of
           Inl e \<Rightarrow> Inl e
         | Inr ok \<Rightarrow>
             if ok then Inr (x, y, rp + 2)
             else createRandomLocationOnIsland R fuel maskA tlx tly brx bry pixsize (rp + 2))"

text \<open>
  \<open>createInitialStoats\<close>: slot \<open>n\<close> receives the stoat with id \<open>n\<close>; the first is
  female, the second male, the others are drawn. A female starts pregnant, with
  \<open>pregnant_day = -nDaysPregnantBeforeBirth\<close>.
\<close>

definition seedStoat :: "stoat \<Rightarrow> nat \<Rightarrow> bool \<Rightarrow> real \<Rightarrow> real \<Rightarrow> int \<Rightarrow> int \<Rightarrow> stoat" where
  "seedStoat old n drawnMale x y nDaysPregnantBeforeBirth cid =
     (let is_male = (if n = 0 then False else if n = 1 then True else drawnMale)
      in old\<lparr>male := is_male, deleted := False,
             pregnant := \<not> is_male,
             pregnant_day := (if \<not> is_male then int32 (- nDaysPregnantBeforeBirth) else -1),
             xpos := x, ypos := y, home_x := x, home_y := y, homerange := False,
             stoat_id := int32 cid, parentid := -1\<rparr>)"

fun createInitialStoats_loop ::
  "rng \<Rightarrow> nat \<Rightarrow> raster \<Rightarrow> real \<Rightarrow> real \<Rightarrow> real \<Rightarrow> real \<Rightarrow> real \<Rightarrow> int \<Rightarrow> nat list
   \<Rightarrow> stoat list \<times> int \<times> nat \<Rightarrow> error + (stoat list \<times> int \<times> nat)" where
  "createInitialStoats_loop R fuel maskA tlx tly brx bry pixsize nPreg [] s = Inr s"
| "createInitialStoats_loop R fuel maskA tlx tly brx bry pixsize nPreg (n # ns) (sa, cid, rp) =
     (case createRandomLocationOnIsland R fuel maskA tlx tly brx bry pixsize rp of
        Inl e \<Rightarrow> Inl e
      | Inr (x, y, rp') \<Rightarrow>
          if n < length sa then
            createInitialStoats_loop R fuel maskA tlx tly brx bry pixsize nPreg ns
              (sa[n := seedStoat (sa ! n) n (rnd_random R rp' < 0.5) x y nPreg cid], cid + 1, rp' + 1)
          else Inl IndexOutOfBounds)"

definition createInitialStoats ::
  "rng \<Rightarrow> nat \<Rightarrow> stoat list \<Rightarrow> int \<Rightarrow> raster \<Rightarrow> real \<Rightarrow> real \<Rightarrow> real \<Rightarrow> real \<Rightarrow> real \<Rightarrow> int \<Rightarrow> nat
   \<Rightarrow> error + (stoat list \<times> nat \<times> int \<times> nat)" where
  "createInitialStoats R fuel stoatArray nAdd maskA tlx tly brx bry pixsize nDaysPregnantBeforeBirth rp =
     (if nAdd \<le> 0 then Inl UnboundLocal
      else
        (case createInitialStoats_loop R fuel maskA tlx tly brx bry pixsize nDaysPregnantBeforeBirth
                [0 ..< nat nAdd] (stoatArray, 0, rp) of
           Inl e \<Rightarrow> Inl e
         | Inr (sa, cid, rp') \<Rightarrow> Inr (sa, nat cid, cid, rp')))"

subsection \<open>Centres of attraction\<close>

definition checkStoatHasKitsInNest :: "stoat list \<Rightarrow> nat \<Rightarrow> int \<Rightarrow> bool" where
  "checkStoatHasKitsInNest stoatArray nStoats sid =
     list_ex (\<lambda>i. \<not> deleted (stoatArray ! i) \<and> parentid (stoatArray ! i) = sid) [0 ..< nStoats]"

definition checkWithinDistanceOfTraps :: "real \<Rightarrow> real \<Rightarrow> (real \<times> real) list \<Rightarrow> real \<Rightarrow> bool" where
  "checkWithinDistanceOfTraps x y trapsArray trapEncDist =
     list_ex (\<lambda>t. dist2d (fst t - x) (snd t - y) < trapEncDist) trapsArray"

definition inArray :: "int \<Rightarrow> int list option \<Rightarrow> bool" where
  "inArray v array = (case array of None \<Rightarrow> False | Some a \<Rightarrow> list_ex (\<lambda>d. v = d) a)"

text \<open>
  A candidate is written at the next index of the temporary arrays, whose length is
  \<open>arraySize\<close>; the count is compared with the length only after the write.
\<close>

definition addCandidate ::
  "nat \<Rightarrow> (real \<times> real \<times> real) list \<Rightarrow> real \<times> real \<times> real \<Rightarrow> error \<Rightarrow> error + (real \<times> real \<times> real) list" where
  "addCandidate arraySize acc c tooMany =
     (if arraySize \<le> length acc then Inl IndexOutOfBounds
      else if length acc + 1 > arraySize then Inl tooMany
      else Inr (acc @ [c]))"

fun coaStoats ::
  "bool \<Rightarrow> real \<Rightarrow> real \<Rightarrow> stoat list \<Rightarrow> int \<Rightarrow> real \<Rightarrow> real \<Rightarrow> real \<Rightarrow> mating list \<Rightarrow> nat \<Rightarrow> nat list
   \<Rightarrow> (real \<times> real \<times> real) list \<Rightarrow> error + (real \<times> real \<times> real) list" where
  "coaStoats lookingForMale x y sa sid COA_radius COA_decay_spatial minK ma arraySize [] acc = Inr acc"
| "coaStoats lookingForMale x y sa sid COA_radius COA_decay_spatial minK ma arraySize (i # rest) acc =
     (if \<not> deleted (sa ! i) \<and> parentid (sa ! i) = -1 \<and> male (sa ! i) = lookingForMale
         \<and> dist2d (x - xpos (sa ! i)) (y - ypos (sa ! i)) < COA_radius
         \<and> \<not> list_ex (\<lambda>m. (lookingForMale \<and> femaleid m = sid \<and> maleid m = stoat_id (sa ! i))
                         \<or> (\<not> lookingForMale \<and> maleid m = sid \<and> femaleid m = stoat_id (sa ! i))) ma
      then
        (if minK = 0 then Inl ZeroDivision
         else
           (case addCandidate arraySize acc
                   (xpos (sa ! i), ypos (sa ! i),
                    (1 / minK) * exp (- COA_decay_spatial * dist2d (x - xpos (sa ! i)) (y - ypos (sa ! i))))
                   TooManyTmpItems of
              Inl e \<Rightarrow> Inl e
            | Inr acc' \<Rightarrow>
                coaStoats lookingForMale x y sa sid COA_radius COA_decay_spatial minK ma arraySize rest acc'))
      else coaStoats lookingForMale x y sa sid COA_radius COA_decay_spatial minK ma arraySize rest acc)"

fun coaPheromones ::
  "real \<Rightarrow> real \<Rightarrow> int \<Rightarrow> real \<Rightarrow> real \<Rightarrow> real \<Rightarrow> real \<Rightarrow> int \<Rightarrow> pheromone list \<Rightarrow> interaction list \<Rightarrow> nat
   \<Rightarrow> nat list \<Rightarrow> (real \<times> real \<times> real) list \<Rightarrow> error + (real \<times> real \<times> real) list" where
  "coaPheromones x y sid COA_radius COA_decay_spatial COA_decay_temporal minK daysSince pa pia arraySize
     [] acc = Inr acc"
| "coaPheromones x y sid COA_radius COA_decay_spatial COA_decay_temporal minK daysSince pa pia arraySize
     (i # rest) acc =
     (if dist2d (x - ph_x (pa ! i)) (y - ph_y (pa ! i)) < COA_radius
         \<and> \<not> list_ex (\<lambda>e. stoatid e = sid \<and> pheromoneid e = int i) pia
      then
        (if minK = 0 then Inl ZeroDivision
         else
           (case addCandidate arraySize acc
                   (ph_x (pa ! i), ph_y (pa ! i),
                    (1 / minK) * exp (- COA_decay_spatial * dist2d (x - ph_x (pa ! i)) (y - ph_y (pa ! i)))
                      * exp (- COA_decay_temporal * of_int daysSince))
                   TooManyTmpItems of
              Inl e \<Rightarrow> Inl e
            | Inr acc' \<Rightarrow>
                coaPheromones x y sid COA_radius COA_decay_spatial COA_decay_temporal minK daysSince pa pia
                  arraySize rest acc'))
      else
        coaPheromones x y sid COA_radius COA_decay_spatial COA_decay_temporal minK daysSince pa pia
          arraySize rest acc)"

text \<open>
  The draw \<open>np.random.multinomial(1, Psel)\<close> marks one category; the oracle names its
  index, and an index outside the candidates leaves the result \<open>None\<close>, as the final
  scan of the code would.
\<close>

definition checkForEstrousMatesAndDecoysInRadius ::
  "rng \<Rightarrow> bool \<Rightarrow> real \<Rightarrow> real \<Rightarrow> stoat list \<Rightarrow> nat \<Rightarrow> int \<Rightarrow> real \<Rightarrow> real \<Rightarrow> real \<Rightarrow> real \<Rightarrow> int
   \<Rightarrow> pheromone list \<Rightarrow> interaction list \<Rightarrow> mating list \<Rightarrow> nat
   \<Rightarrow> error + ((real \<times> real \<times> real) option \<times> nat)" where
  "checkForEstrousMatesAndDecoysInRadius R lookingForMale x y stoatArray nStoats sid COA_radius
     COA_decay_spatial COA_decay_temporal minK daysSincePheromoneRelease pheromoneArray
     pheromoneInteractionArray matingArray rp =
     (let arraySize = INITIAL_STOAT_ARRAY_SIZE + length pheromoneArray
      in case coaStoats lookingForMale x y stoatArray sid COA_radius COA_decay_spatial minK matingArray
                arraySize [0 ..< nStoats] [] of
           Inl e \<Rightarrow> Inl e
         | Inr acc1 \<Rightarrow>
             (case (if daysSincePheromoneRelease \<noteq> -1
                    then coaPheromones x y sid COA_radius COA_decay_spatial COA_decay_temporal minK
                           daysSincePheromoneRelease pheromoneArray pheromoneInteractionArray arraySize
                           [0 ..< length pheromoneArray] acc1
                    else Inr acc1) of
                Inl e \<Rightarrow> Inl e
              | Inr acc \<Rightarrow>
                  if length acc > 0 then
                    (let Kappac = map (\<lambda>c. snd (snd c)) acc;
                         Psel = map (\<lambda>k. k / sum_list Kappac) Kappac;
                         COAi = rnd_multinomial R rp Psel
                     in Inr (if COAi < length acc then Some (acc ! COAi) else None, rp + 1))
                  else Inr (None, rp)))"

section \<open>One realisation: runRealisation\<close>

text \<open>
  The parameters of \<open>runRealisation\<close> that it only reads are the fields of \<open>params\<close>
  (prefixed \<open>p_\<close>). What it updates is the \<open>state\<close>: the arrays, \<open>nStoats\<close>,
  \<open>Current_Id\<close>, the two day-level variables \<open>inEstrous\<close> and
  \<open>daysSincePheromoneRelease\<close>, and the position in the draw sequence. The debug
  buffers, which are only written, are left out.
\<close>

record params =
  p_nDays :: int
  p_hoursPerDay :: int
  p_stepScale :: real
  p_stepShape :: real
  p_alphaK :: real
  p_minK :: real
  p_pheromoneReleaseDays :: "int list"
  p_COA_radius :: real
  p_COA_decay_spatial :: real
  p_COA_decay_temporal :: real
  p_estrousStartDays :: "int list"
  p_estrousEndDays :: "int list"
  p_pheromoneArray :: "pheromone list"
  p_habituationDays :: int
  p_encounterDistance :: real
  p_birthDays :: "int list"
  p_meanRecruits :: real
  p_trappingDays :: "int list option"
  p_trapsArray :: "(real \<times> real) list"
  p_trapEncDist :: real
  p_trapProbRemoval :: real
  p_pDaySurv :: real
  p_dispersalDays :: "int list"
  p_mask :: raster
  p_tlx :: real
  p_tly :: real
  p_brx :: real
  p_bry :: real
  p_pixSize :: real
  p_directionalVM :: real
  p_nDaysPregnantBeforeBirth :: int
  p_probPregnacy :: real

record state =
  st_stoatArray :: "stoat list"
  st_nStoats :: nat
  st_Current_Id :: int
  st_matingArray :: "mating list"
  st_pheromoneInteractionArray :: "interaction list"
  st_inEstrous :: bool
  st_daysSincePheromoneRelease :: int
  st_rpos :: nat

definition onLand :: "params \<Rightarrow> real \<Rightarrow> real \<Rightarrow> error + bool" where
  "onLand P x y =
     checkLocationIsOnIsland (p_mask P) (p_tlx P) (p_tly P) (p_brx P) (p_bry P) (p_pixSize P) x y"

subsection \<open>The steps of one stoat in one hour\<close>

text \<open>Lines 484-494: home-range behaviour unless in estrous and searching.\<close>

definition homerangeBehaviourOf :: "bool \<Rightarrow> stoat list \<Rightarrow> nat \<Rightarrow> nat \<Rightarrow> bool" where
  "homerangeBehaviourOf inEstrous sa nStoats s =
     (if inEstrous then
        (if male (sa ! s) then False
         else if \<not> pregnant (sa ! s) then
           (if \<not> checkStoatHasKitsInNest sa nStoats (stoat_id (sa ! s)) then False else True)
         else True)
      else True)"

text \<open>The gestation test of line 508.\<close>

definition gestationExceeded :: "int \<Rightarrow> stoat \<Rightarrow> int \<Rightarrow> bool" where
  "gestationExceeded day s nDaysPregnantBeforeBirth =
     (day - pregnant_day s > nDaysPregnantBeforeBirth)"

definition birthDue :: "params \<Rightarrow> nat \<Rightarrow> nat \<Rightarrow> stoat \<Rightarrow> bool" where
  "birthDue P day hour s =
     (inArray (int day) (Some (p_birthDays P)) \<and> hour = 0 \<and> pregnant s
      \<and> gestationExceeded (int day) s (p_nDaysPregnantBeforeBirth P))"

text \<open>Lines 500-512: a mature male in estrous tries to mate; otherwise a female may give birth.\<close>

definition matingOrBirth ::
  "params \<Rightarrow> rng \<Rightarrow> nat \<Rightarrow> nat \<Rightarrow> nat \<Rightarrow> real \<Rightarrow> real \<Rightarrow> state \<Rightarrow> error + (bool \<times> state)" where
  "matingOrBirth P R day hour s x y st =
     (let sa = st_stoatArray st
      in if male (sa ! s) then
           (if st_inEstrous st \<and> parentid (sa ! s) = -1 then
              (case doMaleMating R x y (stoat_id (sa ! s)) sa (st_nStoats st) (p_encounterDistance P)
                      (st_matingArray st) (p_habituationDays P) (int day) (p_probPregnacy P)
                      (st_rpos st) of
                 Inl e \<Rightarrow> Inl e
               | Inr (mated, sa', ma', rp') \<Rightarrow>
                   Inr (mated, st\<lparr>st_stoatArray := sa', st_matingArray := ma', st_rpos := rp'\<rparr>))
            else Inr (False, st))
         else if birthDue P day hour (sa ! s) then
           (case doBirth R sa (st_nStoats st) s (p_meanRecruits P) (st_Current_Id st) (st_rpos st) of
              Inl e \<Rightarrow> Inl e
            | Inr (sa', n', cid', rp') \<Rightarrow>
                Inr (False, st\<lparr>st_stoatArray := sa', st_nStoats := n', st_Current_Id := cid',
                                st_rpos := rp'\<rparr>))
         else Inr (False, st))"

text \<open>Lines 516-519.\<close>

definition pheromonePhase :: "params \<Rightarrow> nat \<Rightarrow> real \<Rightarrow> real \<Rightarrow> bool \<Rightarrow> state \<Rightarrow> error + state" where
  "pheromonePhase P s x y mated st =
     (if \<not> mated then
        (case doPheromoneInteraction x y (stoat_id (st_stoatArray st ! s)) (st_stoatArray st)
                (st_nStoats st) (p_pheromoneArray P) (p_encounterDistance P)
                (st_pheromoneInteractionArray st) (p_habituationDays P) of
           Inl e \<Rightarrow> Inl e
         | Inr pia' \<Rightarrow> Inr (st\<lparr>st_pheromoneInteractionArray := pia'\<rparr>))
      else Inr st)"

text \<open>
  Lines 523-535: trapping at every hour of a trapping day, natural mortality in the
  last hour of the day for a stoat that the traps did not kill.
\<close>

definition killDecision ::
  "params \<Rightarrow> rng \<Rightarrow> nat \<Rightarrow> nat \<Rightarrow> real \<Rightarrow> real \<Rightarrow> nat \<Rightarrow> error + (bool \<times> nat)" where
  "killDecision P R day hour x y rp =
     (case (if inArray (int day) (p_trappingDays P)
               \<and> checkWithinDistanceOfTraps x y (p_trapsArray P) (p_trapEncDist P)
            then (case binomial1 R rp (p_trapProbRemoval P) of
                    Inl e \<Rightarrow> Inl e
                  | Inr b \<Rightarrow> Inr (b, rp + 1))
            else Inr (False, rp)) of
        Inl e \<Rightarrow> Inl e
      | Inr (killed, rp') \<Rightarrow>
          if \<not> killed \<and> int hour = p_hoursPerDay P - 1 then
            (case binomial1 R rp' (1 - p_pDaySurv P) of
               Inl e \<Rightarrow> Inl e
             | Inr b \<Rightarrow> Inr (b, rp' + 1))
          else Inr (killed, rp'))"

text \<open>
  Lines 541-556: the stoat's slot is marked deleted, then every slot whose parentid is
  its id, then the entries of the two tables that name its id are freed.
\<close>

fun killChildren :: "nat \<Rightarrow> nat list \<Rightarrow> stoat list \<Rightarrow> stoat list" where
  "killChildren s [] sa = sa"
| "killChildren s (i # rest) sa =
     killChildren s rest
       (if parentid (sa ! i) = stoat_id (sa ! s) then sa[i := (sa ! i)\<lparr>deleted := True\<rparr>] else sa)"

definition purgeMatings :: "int \<Rightarrow> mating list \<Rightarrow> mating list" where
  "purgeMatings k ma = map (\<lambda>e. if maleid e = k \<or> femaleid e = k then e\<lparr>maleid := -1\<rparr> else e) ma"

definition purgeInteractions :: "int \<Rightarrow> interaction list \<Rightarrow> interaction list" where
  "purgeInteractions k pia = map (\<lambda>e. if stoatid e = k then e\<lparr>stoatid := -1\<rparr> else e) pia"

definition killStoat :: "nat \<Rightarrow> state \<Rightarrow> state" where
  "killStoat s st =
     (let sa1 = (st_stoatArray st)[s := (st_stoatArray st ! s)\<lparr>deleted := True\<rparr>];
          sa2 = killChildren s [0 ..< st_nStoats st] sa1;
          k = stoat_id (sa2 ! s)
      in st\<lparr>st_stoatArray := sa2,
            st_matingArray := purgeMatings k (st_matingArray st),
            st_pheromoneInteractionArray := purgeInteractions k (st_pheromoneInteractionArray st)\<rparr>)"

subsection \<open>Movement\<close>

text \<open>Lines 604-615: the bearing from the stoat to its centre of attraction.\<close>

definition targetBearing :: "real \<Rightarrow> real \<Rightarrow> real \<Rightarrow> real" where
  "targetBearing xdistToCOA ydistToCOA distToCOA =
     (let asinTH = arcsin (xdistToCOA / distToCOA);
          b0 = (if xdistToCOA = 0 then arccos ydistToCOA else 0);
          b1 = (if ydistToCOA > 0 then asinTH else b0);
          b2 = (if xdistToCOA > 0 \<and> ydistToCOA \<le> 0 then pi - asinTH else b1)
      in if xdistToCOA < 0 \<and> ydistToCOA \<le> 0 then - pi - asinTH else b2)"

text \<open>
  Lines 590-650: one round (\<open>moveRound\<close>) draws a step and a bearing, stores the
  bearing in \<open>bearingT_1\<close> and proposes a position; the loop commits the position
  only if it is on land; otherwise the next round starts from the unchanged position. The code has no bound on the rounds;
  the model gives the loop \<open>fuel\<close> rounds.
\<close>

definition moveRound ::
  "params \<Rightarrow> rng \<Rightarrow> nat \<Rightarrow> real \<Rightarrow> real \<Rightarrow> real \<Rightarrow> real \<Rightarrow> (real \<times> real \<times> real) option \<Rightarrow> bool
   \<Rightarrow> stoat list \<Rightarrow> nat \<Rightarrow> stoat list \<times> real \<times> real" where
  "moveRound P R s x y COA_x COA_y mateResult homerangeBehaviour sa rp =
     (let xdistToCOA = COA_x - x;
          ydistToCOA = COA_y - y;
          distToCOA = dist2d xdistToCOA ydistToCOA;
          stepLength =
            (if distToCOA \<noteq> 0 \<and> mateResult \<noteq> None \<and> distToCOA < p_stepScale P * 1
             then (distToCOA * 0.95) * rnd_weibull R (rp + 1) (p_stepShape P)
             else p_stepScale P * rnd_weibull R rp (p_stepShape P));
          bearing0 = (if distToCOA = 0 then 0 else targetBearing xdistToCOA ydistToCOA distToCOA);
          bearing =
            (case mateResult of
               None \<Rightarrow>
                 if \<not> homerangeBehaviour
                 then rnd_vonmises R (rp + 2) (bearingT_1 (sa ! s)) (p_directionalVM P)
                 else rnd_vonmises R (rp + 2) bearing0 (ln ((distToCOA + 1) powr p_alphaK P))
             | Some (cx, cy, Kappac) \<Rightarrow> rnd_vonmises R (rp + 2) bearing0 Kappac);
          sa1 = sa[s := (sa ! s)\<lparr>bearingT_1 := bearing\<rparr>];
          newx = xpos (sa1 ! s) + sin bearing * stepLength;
          newy = ypos (sa1 ! s) + cos bearing * stepLength
      in (sa1, newx, newy))"

fun moveLoop ::
  "params \<Rightarrow> rng \<Rightarrow> nat \<Rightarrow> nat \<Rightarrow> real \<Rightarrow> real \<Rightarrow> real \<Rightarrow> real \<Rightarrow> (real \<times> real \<times> real) option \<Rightarrow> bool
   \<Rightarrow> stoat list \<Rightarrow> nat \<Rightarrow> error + (stoat list \<times> nat)" where
  "moveLoop P R 0 s x y COA_x COA_y mateResult homerangeBehaviour sa rp = Inl OutOfFuel"
| "moveLoop P R (Suc fuel) s x y COA_x COA_y mateResult homerangeBehaviour sa rp =
     (case moveRound P R s x y COA_x COA_y mateResult homerangeBehaviour sa rp of
        (sa1, newx, newy) \<Rightarrow>
          (case onLand P newx newy of
             Inl e \<Rightarrow> Inl e
           | Inr newPosOK \<Rightarrow>
               if newPosOK then Inr (sa1[s := (sa1 ! s)\<lparr>xpos := newx, ypos := newy\<rparr>], rp + 3)
               else moveLoop P R fuel s x y COA_x COA_y mateResult homerangeBehaviour sa1 (rp + 3)))"

text \<open>Lines 567-650: the search for a centre of attraction, then the movement loop.\<close>

definition moveStoat ::
  "params \<Rightarrow> rng \<Rightarrow> nat \<Rightarrow> nat \<Rightarrow> real \<Rightarrow> real \<Rightarrow> real \<Rightarrow> real \<Rightarrow> bool \<Rightarrow> state \<Rightarrow> error + state" where
  "moveStoat P R fuel s x y home_COA_x home_COA_y homerangeBehaviour st =
     (case (if \<not> homerangeBehaviour then
              checkForEstrousMatesAndDecoysInRadius R (\<not> male (st_stoatArray st ! s)) x y
                (st_stoatArray st) (st_nStoats st) (stoat_id (st_stoatArray st ! s)) (p_COA_radius P)
                (p_COA_decay_spatial P) (p_COA_decay_temporal P) (p_minK P)
                (st_daysSincePheromoneRelease st) (p_pheromoneArray P)
                (st_pheromoneInteractionArray st) (st_matingArray st) (st_rpos st)
            else Inr (None, st_rpos st)) of
        Inl e \<Rightarrow> Inl e
      | Inr (mateResult, rp) \<Rightarrow>
          (let COA_x = (case mateResult of None \<Rightarrow> home_COA_x | Some (cx, cy, k) \<Rightarrow> cx);
               COA_y = (case mateResult of None \<Rightarrow> home_COA_y | Some (cx, cy, k) \<Rightarrow> cy)
           in case moveLoop P R fuel s x y COA_x COA_y mateResult homerangeBehaviour
                     (st_stoatArray st) rp of
                Inl e \<Rightarrow> Inl e
              | Inr (sa', rp') \<Rightarrow> Inr (st\<lparr>st_stoatArray := sa', st_rpos := rp'\<rparr>)))"

text \<open>Lines 475-650: everything that happens to the live stoat in slot \<open>s\<close> in one hour.\<close>

definition processStoat :: "params \<Rightarrow> rng \<Rightarrow> nat \<Rightarrow> nat \<Rightarrow> nat \<Rightarrow> nat \<Rightarrow> state \<Rightarrow> error + state" where
  "processStoat P R fuel day hour s st =
     (let sa0 = st_stoatArray st;
          COA_x = home_x (sa0 ! s);
          COA_y = home_y (sa0 ! s);
          x = xpos (sa0 ! s);
          y = ypos (sa0 ! s);
          homerangeBehaviour = homerangeBehaviourOf (st_inEstrous st) sa0 (st_nStoats st) s;
          st1 = st\<lparr>st_stoatArray := sa0[s := (sa0 ! s)\<lparr>homerange := homerangeBehaviour\<rparr>]\<rparr>
      in case matingOrBirth P R day hour s x y st1 of
           Inl e \<Rightarrow> Inl e
         | Inr (mated, st2) \<Rightarrow>
             (case pheromonePhase P s x y mated st2 of
                Inl e \<Rightarrow> Inl e
              | Inr st3 \<Rightarrow>
                  (case killDecision P R day hour x y (st_rpos st3) of
                     Inl e \<Rightarrow> Inl e
                   | Inr (killed, rp) \<Rightarrow>
                       if killed then Inr (killStoat s (st3\<lparr>st_rpos := rp\<rparr>))
                       else if parentid (st_stoatArray st3 ! s) \<noteq> -1 then Inr (st3\<lparr>st_rpos := rp\<rparr>)
                       else moveStoat P R fuel s x y COA_x COA_y homerangeBehaviour
                              (st3\<lparr>st_rpos := rp\<rparr>))))"

subsection \<open>Day-level events\<close>

text \<open>
  Lines 452-464, for one slot: a live stoat that is an offspring or a male moves to a
  random point on land, which becomes its home, and draws a new \<open>bearingT_1\<close>; every
  slot, live or not, gets \<open>parentid = -1\<close>.
\<close>

definition disperseOne :: "params \<Rightarrow> rng \<Rightarrow> nat \<Rightarrow> nat \<Rightarrow> stoat list \<Rightarrow> nat \<Rightarrow> error + (stoat list \<times> nat)" where
  "disperseOne P R fuel i sa rp =
     (if \<not> deleted (sa ! i) \<and> (parentid (sa ! i) \<noteq> -1 \<or> male (sa ! i)) then
        (case createRandomLocationOnIsland R fuel (p_mask P) (p_tlx P) (p_tly P) (p_brx P) (p_bry P)
                (p_pixSize P) rp of
           Inl e \<Rightarrow> Inl e
         | Inr (x, y, rp') \<Rightarrow>
             Inr (sa[i := (sa ! i)\<lparr>xpos := x, ypos := y, home_x := x, home_y := y,
                                    bearingT_1 := rnd_uniform R rp' (- pi) pi, parentid := -1\<rparr>],
                  rp' + 1))
      else Inr (sa[i := (sa ! i)\<lparr>parentid := -1\<rparr>], rp))"

fun disperse :: "params \<Rightarrow> rng \<Rightarrow> nat \<Rightarrow> nat list \<Rightarrow> stoat list \<Rightarrow> nat \<Rightarrow> error + (stoat list \<times> nat)" where
  "disperse P R fuel [] sa rp = Inr (sa, rp)"
| "disperse P R fuel (i # rest) sa rp =
     (case disperseOne P R fuel i sa rp of
        Inl e \<Rightarrow> Inl e
      | Inr (sa', rp') \<Rightarrow> disperse P R fuel rest sa' rp')"

text \<open>Lines 444-464: what happens at the start of a day, before the hours.\<close>

definition startOfDay :: "params \<Rightarrow> rng \<Rightarrow> nat \<Rightarrow> nat \<Rightarrow> state \<Rightarrow> error + state" where
  "startOfDay P R fuel day st =
     (let st1 = (if inArray (int day) (Some (p_pheromoneReleaseDays P))
                 then st\<lparr>st_daysSincePheromoneRelease := 0\<rparr> else st);
          st2 = (if inArray (int day) (Some (p_estrousStartDays P)) then st1\<lparr>st_inEstrous := True\<rparr>
                 else if inArray (int day) (Some (p_estrousEndDays P)) then st1\<lparr>st_inEstrous := False\<rparr>
                 else st1)
      in if inArray (int day) (Some (p_dispersalDays P)) then
           (case disperse P R fuel [0 ..< st_nStoats st2] (st_stoatArray st2) (st_rpos st2) of
              Inl e \<Rightarrow> Inl e
            | Inr (sa', rp') \<Rightarrow> Inr (st2\<lparr>st_stoatArray := sa', st_rpos := rp'\<rparr>))
         else Inr st2)"

text \<open>Lines 665-680: the end of a day that ran through all its hours.\<close>

definition decrementInteraction :: "interaction \<Rightarrow> interaction" where
  "decrementInteraction e =
     (if stoatid e \<noteq> -1 then
        (let e' = e\<lparr>i_ndays := int32 (i_ndays e - 1)\<rparr>
         in if i_ndays e' = 0 then e'\<lparr>stoatid := -1\<rparr> else e')
      else e)"

definition decrementMating :: "mating \<Rightarrow> mating" where
  "decrementMating e =
     (if maleid e \<noteq> -1 then
        (let e' = e\<lparr>m_ndays := int32 (m_ndays e - 1)\<rparr>
         in if m_ndays e' = 0 then e'\<lparr>maleid := -1\<rparr> else e')
      else e)"

definition endOfDay :: "state \<Rightarrow> state" where
  "endOfDay st =
     st\<lparr>st_daysSincePheromoneRelease :=
          (if st_daysSincePheromoneRelease st \<noteq> -1 then st_daysSincePheromoneRelease st + 1
           else st_daysSincePheromoneRelease st),
        st_pheromoneInteractionArray := map decrementInteraction (st_pheromoneInteractionArray st),
        st_matingArray := map decrementMating (st_matingArray st)\<rparr>"

subsection \<open>The loops over stoats, hours and days\<close>

text \<open>
  Lines 470-650. The slots visited are \<open>range(nStoats)\<close> with \<open>nStoats\<close> as it was
  when the hour began; a slot that is deleted when its turn comes is skipped, and a
  live one clears the \<open>eradication\<close> flag of the hour before it is processed.
\<close>

fun stoatLoop ::
  "params \<Rightarrow> rng \<Rightarrow> nat \<Rightarrow> nat \<Rightarrow> nat \<Rightarrow> nat list \<Rightarrow> bool \<Rightarrow> state \<Rightarrow> error + (bool \<times> state)" where
  "stoatLoop P R fuel day hour [] eradication st = Inr (eradication, st)"
| "stoatLoop P R fuel day hour (s # rest) eradication st =
     (if \<not> deleted (st_stoatArray st ! s) then
        (case processStoat P R fuel day hour s st of
           Inl e \<Rightarrow> Inl e
         | Inr st' \<Rightarrow> stoatLoop P R fuel day hour rest False st')
      else stoatLoop P R fuel day hour rest eradication st)"

definition runHour :: "params \<Rightarrow> rng \<Rightarrow> nat \<Rightarrow> nat \<Rightarrow> nat \<Rightarrow> state \<Rightarrow> error + (bool \<times> state)" where
  "runHour P R fuel day hour st = stoatLoop P R fuel day hour [0 ..< st_nStoats st] True st"

text \<open>
  The control flow of the two outer loops: \<open>Returned b st\<close> is \<open>return b\<close> (or the
  \<open>break\<close> of line 439 followed by the final \<open>return eradication\<close>), \<open>Running e st\<close>
  is the loop going on, with \<open>e\<close> the local variable \<open>eradication\<close>, \<open>None\<close> while it
  has not been assigned.
\<close>

datatype flow = Returned bool state | Running "bool option" state

fun hourLoop :: "params \<Rightarrow> rng \<Rightarrow> nat \<Rightarrow> nat \<Rightarrow> nat list \<Rightarrow> bool option \<Rightarrow> state \<Rightarrow> error + flow" where
  "hourLoop P R fuel day [] eradication st = Inr (Running eradication st)"
| "hourLoop P R fuel day (hour # rest) eradication st =
     (case runHour P R fuel day hour st of
        Inl e \<Rightarrow> Inl e
      | Inr (eradication', st') \<Rightarrow>
          if eradication' then Inr (Returned True st')
          else hourLoop P R fuel day rest (Some eradication') st')"

definition runDay :: "params \<Rightarrow> rng \<Rightarrow> nat \<Rightarrow> nat \<Rightarrow> bool option \<Rightarrow> state \<Rightarrow> error + flow" where
  "runDay P R fuel day eradication st =
     (if st_nStoats st > 175 then Inr (Returned False st)
      else
        (case startOfDay P R fuel day st of
           Inl e \<Rightarrow> Inl e
         | Inr st1 \<Rightarrow>
             (case hourLoop P R fuel day [0 ..< nat (p_hoursPerDay P)] eradication st1 of
                Inl e \<Rightarrow> Inl e
              | Inr (Returned b st2) \<Rightarrow> Inr (Returned b st2)
              | Inr (Running eradication' st2) \<Rightarrow> Inr (Running eradication' (endOfDay st2)))))"

fun dayLoop :: "params \<Rightarrow> rng \<Rightarrow> nat \<Rightarrow> nat list \<Rightarrow> bool option \<Rightarrow> state \<Rightarrow> error + (bool \<times> state)" where
  "dayLoop P R fuel [] eradication st =
     (case eradication of None \<Rightarrow> Inl UnboundLocal | Some b \<Rightarrow> Inr (b, st))"
| "dayLoop P R fuel (day # rest) eradication st =
     (case runDay P R fuel day eradication st of
        Inl e \<Rightarrow> Inl e
      | Inr (Returned b st') \<Rightarrow> Inr (b, st')
      | Inr (Running eradication' st') \<Rightarrow> dayLoop P R fuel rest eradication' st')"

text \<open>
  \<open>runRealisation\<close> returns the flag; the model returns the final state with it.
  It starts with \<open>daysSincePheromoneRelease = -1\<close> and \<open>inEstrous = False\<close>.
\<close>

definition runRealisation :: "params \<Rightarrow> rng \<Rightarrow> nat \<Rightarrow> state \<Rightarrow> error + (bool \<times> state)" where
  "runRealisation P R fuel st =
     dayLoop P R fuel [0 ..< nat (p_nDays P)] None
       (st\<lparr>st_daysSincePheromoneRelease := -1, st_inEstrous := False\<rparr>)"

section \<open>Specification predicates and example inputs\<close>

text \<open>The first free slot of each table, as the slot searches find it.\<close>

definition firstFreeMating :: "mating list \<Rightarrow> nat \<Rightarrow> bool" where
  "firstFreeMating ma m = (m < length ma \<and> maleid (ma ! m) = -1 \<and> (\<forall>j<m. maleid (ma ! j) \<noteq> -1))"

definition firstFreeInteraction :: "interaction list \<Rightarrow> nat \<Rightarrow> bool" where
  "firstFreeInteraction pia m =
     (m < length pia \<and> stoatid (pia ! m) = -1 \<and> (\<forall>j<m. stoatid (pia ! j) \<noteq> -1))"

text \<open>Station \<open>p\<close> is within encounter distance (the test of line 288).\<close>

definition stationInRange :: "real \<Rightarrow> real \<Rightarrow> pheromone list \<Rightarrow> real \<Rightarrow> nat \<Rightarrow> bool" where
  "stationInRange x y pheromoneArray encounterDistance p =
     (dist2d (ph_x (pheromoneArray ! p) - x) (ph_y (pheromoneArray ! p) - y) < encounterDistance)"

text \<open>
  The female in slot \<open>i\<close> is one the male \<open>sid\<close> at (x, y) mates with: live, mature,
  not yet in the table with him, and within encounter distance (lines 227-244).
\<close>

definition femaleEncountered :: "real \<Rightarrow> real \<Rightarrow> int \<Rightarrow> stoat list \<Rightarrow> mating list \<Rightarrow> real \<Rightarrow> nat \<Rightarrow> bool" where
  "femaleEncountered x y sid sa ma encounterDistance i =
     (\<not> deleted (sa ! i) \<and> \<not> male (sa ! i) \<and> parentid (sa ! i) = -1
      \<and> \<not> alreadyMatedWith ma sid (stoat_id (sa ! i))
      \<and> dist2d (x - xpos (sa ! i)) (y - ypos (sa ! i)) < encounterDistance)"

text \<open>Two records of a slot that differ at most in the pregnancy fields.\<close>

definition sameButPregnancy :: "stoat \<Rightarrow> stoat \<Rightarrow> bool" where
  "sameButPregnancy a b = (b = a\<lparr>pregnant := pregnant b, pregnant_day := pregnant_day b\<rparr>)"

text \<open>The number of live stoats among the slots in use.\<close>

definition liveCount :: "state \<Rightarrow> nat" where
  "liveCount st = length (filter (\<lambda>i. \<not> deleted (st_stoatArray st ! i)) [0 ..< st_nStoats st])"

subsection \<open>Example inputs\<close>

text \<open>
  A fixed oracle, a parameter set after \<open>params.py\<close> on a land mask of three by
  three pixels of 100 m, and the records the examples are built from.
\<close>

definition rng0 :: rng where
  "rng0 = \<lparr>rnd_random = (\<lambda>k. if even k then 1 / 4 else 3 / 4), rnd_uniform = (\<lambda>k lo hi. 1 / 4),
           rnd_bernoulli = (\<lambda>k p. True), rnd_poisson = (\<lambda>k lam. Suc 0),
           rnd_weibull = (\<lambda>k a. 0), rnd_vonmises = (\<lambda>k mu kappa. 0),
           rnd_multinomial = (\<lambda>k ps. 0)\<rparr>"

definition params0 :: params where
  "params0 =
     \<lparr>p_nDays = 2, p_hoursPerDay = 2, p_stepScale = 50, p_stepShape = 9 / 10, p_alphaK = 1 / 50,
      p_minK = 1 / 200, p_pheromoneReleaseDays = [], p_COA_radius = 2500,
      p_COA_decay_spatial = 1 / 100, p_COA_decay_temporal = 1 / 200, p_estrousStartDays = [],
      p_estrousEndDays = [], p_pheromoneArray = [\<lparr>ph_x = 0, ph_y = 200\<rparr>], p_habituationDays = 19,
      p_encounterDistance = 25, p_birthDays = [], p_meanRecruits = 9, p_trappingDays = Some [0],
      p_trapsArray = [(100, 200)], p_trapEncDist = 15, p_trapProbRemoval = 1, p_pDaySurv = 1,
      p_dispersalDays = [], p_mask = \<lparr>cells = [[1, 1, 1], [1, 1, 1], [1, 1, 1]], beyond = (\<lambda>k. 0)\<rparr>, p_tlx = 0, p_tly = 300,
      p_brx = 300, p_bry = 0,
      p_pixSize = 100, p_directionalVM = 7 / 2, p_nDaysPregnantBeforeBirth = 180,
      p_probPregnacy = 9 / 10\<rparr>"

definition adultAt :: "bool \<Rightarrow> int \<Rightarrow> real \<Rightarrow> real \<Rightarrow> stoat" where
  "adultAt is_male k x y =
     \<lparr>deleted = False, male = is_male, pregnant = False, xpos = x, ypos = y, home_x = x,
      home_y = y, stoat_id = k, pregnant_day = -1, parentid = -1, bearingT_1 = 0,
      homerange = False\<rparr>"

definition kitOf :: "int \<Rightarrow> bool \<Rightarrow> int \<Rightarrow> real \<Rightarrow> real \<Rightarrow> stoat" where
  "kitOf mother_id is_male k x y = (adultAt is_male k x y)\<lparr>parentid := mother_id\<rparr>"

definition freeMating :: mating where
  "freeMating = \<lparr>maleid = -1, femaleid = 0, m_ndays = 0\<rparr>"

definition freeInteraction :: interaction where
  "freeInteraction = \<lparr>pheromoneid = 0, stoatid = -1, i_ndays = 0\<rparr>"

text \<open>
  A mother (id 0) beside a trap and her male kit (id 1) beside a lure station, on a
  trapping day; and the state after hour 0 of that day.
\<close>

definition c1_state :: state where
  "c1_state =
     \<lparr>st_stoatArray = [kitOf 0 True 1 0 200, adultAt False 0 100 200], st_nStoats = 2,
      st_Current_Id = 2, st_matingArray = [freeMating],
      st_pheromoneInteractionArray = [freeInteraction, freeInteraction], st_inEstrous = False,
      st_daysSincePheromoneRelease = -1, st_rpos = 0\<rparr>"

definition c1_after :: state where
  "c1_after =
     \<lparr>st_stoatArray = [(kitOf 0 True 1 0 200)\<lparr>deleted := True, homerange := True\<rparr>,
                       (adultAt False 0 100 200)\<lparr>deleted := True, homerange := True\<rparr>],
      st_nStoats = 2, st_Current_Id = 2, st_matingArray = [freeMating],
      st_pheromoneInteractionArray = [\<lparr>pheromoneid = 0, stoatid = 1, i_ndays = 19\<rparr>, freeInteraction],
      st_inEstrous = False, st_daysSincePheromoneRelease = -1, st_rpos = 1\<rparr>"







text \<open>A state with 176 slots in use, all live.\<close>

definition c9_state :: state where
  "c9_state =
     \<lparr>st_stoatArray = replicate 1000 (adultAt False 0 100 200), st_nStoats = 176,
      st_Current_Id = 176, st_matingArray = [freeMating],
      st_pheromoneInteractionArray = [freeInteraction], st_inEstrous = False,
      st_daysSincePheromoneRelease = -1, st_rpos = 0\<rparr>"

subsection \<open>Relations between the states before and after a step\<close>

text \<open>
  The record \<open>new\<close> is what \<open>doBirth\<close> writes for a kit of the mother with id \<open>pid\<close>
  at (x, y) into a slot that held \<open>old\<close>, with an id taken from the counter between
  \<open>cid\<close> and \<open>cid'\<close>.
\<close>

definition isKitOf :: "int \<Rightarrow> real \<Rightarrow> real \<Rightarrow> int \<Rightarrow> int \<Rightarrow> stoat \<Rightarrow> stoat \<Rightarrow> bool" where
  "isKitOf pid x y cid cid' old new =
     (\<exists>b c. cid \<le> c \<and> c < cid' \<and> new = newKit old x y b c pid)"

text \<open>What dispersal may do to a slot.\<close>

definition dispersalRel :: "params \<Rightarrow> stoat \<Rightarrow> stoat \<Rightarrow> bool" where
  "dispersalRel P a b =
     (deleted b = deleted a \<and> male b = male a \<and> stoat_id b = stoat_id a
      \<and> pregnant b = pregnant a \<and> pregnant_day b = pregnant_day a
      \<and> (parentid b = parentid a \<or> parentid b = -1)
      \<and> ((xpos b = xpos a \<and> ypos b = ypos a) \<or> onLand P (xpos b) (ypos b) = Inr True))"

text \<open>Two records of a slot that differ at most in pregnancy and home-range flag.\<close>

definition sameCore :: "stoat \<Rightarrow> stoat \<Rightarrow> bool" where
  "sameCore a b =
     (b = a\<lparr>pregnant := pregnant b, pregnant_day := pregnant_day b, homerange := homerange b\<rparr>)"

text \<open>The slots in use lie within the array; and every slot in use is deleted.\<close>

definition wfState :: "state \<Rightarrow> bool" where
  "wfState st = (st_nStoats st \<le> length (st_stoatArray st))"

definition allDeleted :: "state \<Rightarrow> bool" where
  "allDeleted st = (\<forall>i<st_nStoats st. deleted (st_stoatArray st ! i))"

text \<open>
  Slot \<open>new\<close> holds a kit of the stoat \<open>mother\<close>, born into the slot that held \<open>old\<close>,
  with an id drawn from the counter between \<open>cid\<close> and \<open>cid'\<close>.
\<close>

definition kitIn :: "stoat \<Rightarrow> int \<Rightarrow> int \<Rightarrow> stoat \<Rightarrow> stoat \<Rightarrow> bool" where
  "kitIn mother cid cid' old new =
     (\<not> deleted new \<and> parentid new = stoat_id mother \<and> xpos new = xpos mother
      \<and> ypos new = ypos mother \<and> bearingT_1 new = bearingT_1 old
      \<and> (\<exists>c. cid \<le> c \<and> c < cid' \<and> stoat_id new = int32 c))"


text \<open>Every live stoat in use is at a position that \<open>checkLocationIsOnIsland\<close> accepts.\<close>

definition onLandInv :: "params \<Rightarrow> state \<Rightarrow> bool" where
  "onLandInv P st =
     (\<forall>i<st_nStoats st. \<not> deleted (st_stoatArray st ! i) \<longrightarrow>
        onLand P (xpos (st_stoatArray st ! i)) (ypos (st_stoatArray st ! i)) = Inr True)"

text \<open>
  The state in which \<open>runModel\<close> calls \<open>runRealisation\<close> (lines 767-781): the stoat
  array seeded by \<open>createInitialStoats\<close>, the two tables as given.
\<close>

definition initialState ::
  "params \<Rightarrow> rng \<Rightarrow> nat \<Rightarrow> stoat list \<Rightarrow> int \<Rightarrow> mating list \<Rightarrow> interaction list \<Rightarrow> nat \<Rightarrow> error + state" where
  "initialState P R fuel stoatArray nAdd matingArray pia rp =
     (case createInitialStoats R fuel stoatArray nAdd (p_mask P) (p_tlx P) (p_tly P) (p_brx P) (p_bry P)
             (p_pixSize P) (p_nDaysPregnantBeforeBirth P) rp of
        Inl e \<Rightarrow> Inl e
      | Inr (sa, n, cid, rp') \<Rightarrow>
          Inr \<lparr>st_stoatArray = sa, st_nStoats = n, st_Current_Id = cid, st_matingArray = matingArray,
               st_pheromoneInteractionArray = pia, st_inEstrous = False,
               st_daysSincePheromoneRelease = -1, st_rpos = rp'\<rparr>)"

text \<open>
  The states a realisation passes through: it starts from \<open>initialState\<close> on an array
  of deleted slots and tables of free entries, as \<open>runModel\<close> allocates them, and goes
  on by the turn of a live stoat, the start of a day or the end of a day, for any
  oracle, day and hour.
\<close>

inductive reachable :: "params \<Rightarrow> state \<Rightarrow> bool" for P :: params where
  seeded: "initialState P R fuel sa0 nAdd ma0 pia0 rp = Inr st \<Longrightarrow> \<forall>s\<in>set sa0. deleted s \<Longrightarrow>
           \<forall>e\<in>set ma0. maleid e = -1 \<Longrightarrow> \<forall>e\<in>set pia0. stoatid e = -1 \<Longrightarrow> reachable P st"
| turn: "reachable P st \<Longrightarrow> s < st_nStoats st \<Longrightarrow> \<not> deleted (st_stoatArray st ! s) \<Longrightarrow>
         processStoat P R fuel day hour s st = Inr st' \<Longrightarrow> reachable P st'"
| day_start: "reachable P st \<Longrightarrow> startOfDay P R fuel day st = Inr st' \<Longrightarrow> reachable P st'"
| day_end: "reachable P st \<Longrightarrow> reachable P (endOfDay st)"

text \<open>Slot \<open>j\<close> was seeded: live, independent, on land, with its index as id.\<close>

definition seededSlot :: "params \<Rightarrow> nat \<Rightarrow> stoat \<Rightarrow> bool" where
  "seededSlot P j s =
     (\<not> deleted s \<and> parentid s = -1 \<and> stoat_id s = int32 (int j)
      \<and> onLand P (xpos s) (ypos s) = Inr True)"

text \<open>
  The membership test as the specification words it (section 4.1): the point lies in
  the bounding box, and the cell of the mask at its row and column, by nearest-cell
  rounding, is land. The cell must be one of the mask.
\<close>

definition isOnLand_spec :: "raster \<Rightarrow> real \<Rightarrow> real \<Rightarrow> real \<Rightarrow> real \<Rightarrow> real \<Rightarrow> real \<Rightarrow> real \<Rightarrow> bool" where
  "isOnLand_spec maskA tlx tly brx bry pixsize x y =
     (x \<ge> tlx \<and> x \<le> brx \<and> y \<le> tly \<and> y \<ge> bry \<and> pixsize \<noteq> 0
      \<and> (let xPix = npRound ((x - tlx) / pixsize);
              yPix = npRound ((tly - y) / pixsize)
          in 0 \<le> yPix \<and> yPix < int (length (cells maskA))
             \<and> 0 \<le> xPix \<and> xPix < int (length (cells maskA ! nat yPix))
             \<and> cells maskA ! nat yPix ! nat xPix > 0))"

text \<open>
  A raster of three by three pixels of 100 m whose land is the centre cell and the
  south-west cell; an oracle that seeds at (75, 225), in the centre cell, and whose
  step is 200 m due east; one seeded female; and the state after her turn in hour 0
  of day 0.
\<close>

definition c6_params :: params where
  "c6_params =
     params0\<lparr>p_mask := \<lparr>cells = [[0, 0, 0], [0, 1, 0], [1, 0, 0]], beyond = (\<lambda>k. 0)\<rparr>,
             p_trappingDays := None, p_pheromoneArray := []\<rparr>"

definition rng_east :: rng where
  "rng_east = rng0\<lparr>rnd_weibull := (\<lambda>k a. 4), rnd_vonmises := (\<lambda>k mu kappa. pi / 2)\<rparr>"

definition deletedSlot :: stoat where
  "deletedSlot = (adultAt False 0 0 0)\<lparr>deleted := True\<rparr>"

definition c6_seeded :: state where
  "c6_seeded =
     \<lparr>st_stoatArray = [(adultAt False 0 75 225)\<lparr>pregnant := True, pregnant_day := -180\<rparr>],
      st_nStoats = 1, st_Current_Id = 1, st_matingArray = [freeMating],
      st_pheromoneInteractionArray = [freeInteraction], st_inEstrous = False,
      st_daysSincePheromoneRelease = -1, st_rpos = 3\<rparr>"

definition c6_after :: state where
  "c6_after =
     c6_seeded\<lparr>st_stoatArray :=
                   [(adultAt False 0 75 225)\<lparr>pregnant := True, pregnant_day := -180, xpos := 275,
                                              bearingT_1 := pi / 2, homerange := True\<rparr>],
                st_rpos := 6\<rparr>"

subsection \<open>The mating table and the stoats it names\<close>

text \<open>
  The ids of the live stoats in use: each lies between 0 and the id counter, and no two
  live slots hold the same id.
\<close>

definition idsInv :: "nat \<Rightarrow> stoat list \<Rightarrow> int \<Rightarrow> bool" where
  "idsInv n sa cid =
     (0 \<le> cid
      \<and> (\<forall>i<n. \<not> deleted (sa ! i) \<longrightarrow> 0 \<le> stoat_id (sa ! i) \<and> stoat_id (sa ! i) < cid)
      \<and> (\<forall>i<n. \<forall>j<n. \<not> deleted (sa ! i) \<and> \<not> deleted (sa ! j)
             \<and> stoat_id (sa ! i) = stoat_id (sa ! j) \<longrightarrow> i = j))"

text \<open>The id \<open>k\<close> is that of a live, independent stoat of the given sex.\<close>

definition namesAdult :: "nat \<Rightarrow> stoat list \<Rightarrow> bool \<Rightarrow> int \<Rightarrow> bool" where
  "namesAdult n sa is_male k =
     (\<exists>i<n. \<not> deleted (sa ! i) \<and> male (sa ! i) = is_male \<and> parentid (sa ! i) = -1
            \<and> stoat_id (sa ! i) = k)"

text \<open>Every active entry of the mating table names a live adult male and a live adult female.\<close>

definition ledgerRefs :: "nat \<Rightarrow> stoat list \<Rightarrow> mating list \<Rightarrow> bool" where
  "ledgerRefs n sa ma =
     (\<forall>m<length ma. maleid (ma ! m) \<noteq> -1 \<longrightarrow>
        namesAdult n sa True (maleid (ma ! m)) \<and> namesAdult n sa False (femaleid (ma ! m)))"

text \<open>No two active entries hold the same male id and the same female id.\<close>

definition orderedUnique :: "mating list \<Rightarrow> bool" where
  "orderedUnique ma =
     (\<forall>m<length ma. \<forall>m'<length ma.
        maleid (ma ! m) \<noteq> -1 \<and> maleid (ma ! m') \<noteq> -1 \<and> maleid (ma ! m) = maleid (ma ! m')
        \<and> femaleid (ma ! m) = femaleid (ma ! m') \<longrightarrow> m = m')"

text \<open>The three together, with the slots in use inside the array.\<close>

definition linv :: "nat \<Rightarrow> stoat list \<Rightarrow> int \<Rightarrow> mating list \<Rightarrow> bool" where
  "linv n sa cid ma = (n \<le> length sa \<and> idsInv n sa cid \<and> ledgerRefs n sa ma \<and> orderedUnique ma)"

definition ledgerInv :: "state \<Rightarrow> bool" where
  "ledgerInv st = linv (st_nStoats st) (st_stoatArray st) (st_Current_Id st) (st_matingArray st)"

text \<open>Two records of a slot with the same deleted flag, sex and id; a kit may have become independent.\<close>

definition sameIdentity :: "stoat \<Rightarrow> stoat \<Rightarrow> bool" where
  "sameIdentity a b =
     (deleted b = deleted a \<and> male b = male a \<and> stoat_id b = stoat_id a
      \<and> (parentid b = parentid a \<or> parentid b = -1))"

text \<open>
  The uniqueness of the mating table in the specification's words: an active entry
  never has \<open>maleid = femaleid\<close>, and no other active entry names the same two ids,
  in either order.
\<close>

definition matingLedgerUnique :: "mating list \<Rightarrow> bool" where
  "matingLedgerUnique ma =
     list_all (\<lambda>m. maleid (ma ! m) \<noteq> -1 \<longrightarrow>
        maleid (ma ! m) \<noteq> femaleid (ma ! m)
        \<and> list_all (\<lambda>m'. m' \<noteq> m \<and> maleid (ma ! m') \<noteq> -1 \<longrightarrow>
              \<not> ((maleid (ma ! m') = maleid (ma ! m) \<and> femaleid (ma ! m') = femaleid (ma ! m))
                 \<or> (maleid (ma ! m') = femaleid (ma ! m) \<and> femaleid (ma ! m') = maleid (ma ! m))))
            [0 ..< length ma])
       [0 ..< length ma]"

text \<open>
  Estrus opens on day 0; the oracle seeds the female and the male at the same point
  (75, 75); at the male's turn in hour 0 the pair is recorded in the first entry of the
  mating table.
\<close>

definition c5_params :: params where
  "c5_params = params0\<lparr>p_estrousStartDays := [0], p_trappingDays := None, p_pheromoneArray := []\<rparr>"

definition rng_same :: rng where
  "rng_same = rng0\<lparr>rnd_random := (\<lambda>k. 1 / 4)\<rparr>"

definition c5_seeded :: state where
  "c5_seeded =
     \<lparr>st_stoatArray = [(adultAt False 0 75 75)\<lparr>pregnant := True, pregnant_day := -180\<rparr>,
                       adultAt True 1 75 75],
      st_nStoats = 2, st_Current_Id = 2, st_matingArray = [freeMating, freeMating],
      st_pheromoneInteractionArray = [freeInteraction], st_inEstrous = False,
      st_daysSincePheromoneRelease = -1, st_rpos = 6\<rparr>"

definition c5_mated :: state where
  "c5_mated =
     c5_seeded\<lparr>st_inEstrous := True,
               st_matingArray := [\<lparr>maleid = 1, femaleid = 0, m_ndays = 19\<rparr>, freeMating],
               st_rpos := 9\<rparr>"

section \<open>Basic facts about the tables and the mating loop\<close>

lemma recordMating_None: "(recordMating ma sid fid d = None) = (\<forall>e\<in>set ma. maleid e \<noteq> -1)"
  by (induction ma) auto

lemma recordMating_Some:
  "recordMating ma sid fid d = Some ma' \<Longrightarrow>
   \<exists>m. firstFreeMating ma m \<and> ma' = ma[m := (ma ! m)\<lparr>maleid := sid, femaleid := fid, m_ndays := d\<rparr>]"
proof (induction ma arbitrary: ma')
  case Nil
  then show ?case by simp
next
  case (Cons e es)
  show ?case
  proof (cases "maleid e = -1")
    case True
    with Cons.prems have "ma' = (e # es)[0 := ((e # es) ! 0)\<lparr>maleid := sid, femaleid := fid, m_ndays := d\<rparr>]"
      by simp
    moreover have "firstFreeMating (e # es) 0" using True by (simp add: firstFreeMating_def)
    ultimately show ?thesis by blast
  next
    case False
    with Cons.prems obtain es' where es': "recordMating es sid fid d = Some es'" and ma': "ma' = e # es'"
      by auto
    from Cons.IH [OF es'] obtain m where m: "firstFreeMating es m"
      and eq: "es' = es[m := (es ! m)\<lparr>maleid := sid, femaleid := fid, m_ndays := d\<rparr>]" by blast
    have "firstFreeMating (e # es) (Suc m)"
      using m False by (auto simp: firstFreeMating_def less_Suc_eq_0_disj)
    moreover have "ma' = (e # es)[Suc m := ((e # es) ! Suc m)\<lparr>maleid := sid, femaleid := fid, m_ndays := d\<rparr>]"
      using ma' eq by simp
    ultimately show ?thesis by blast
  qed
qed

lemma recordInteraction_None: "(recordInteraction pia sid p d = None) = (\<forall>e\<in>set pia. stoatid e \<noteq> -1)"
  by (induction pia) auto

lemma recordInteraction_Some:
  "recordInteraction pia sid p d = Some pia' \<Longrightarrow>
   \<exists>m. firstFreeInteraction pia m \<and> pia' = pia[m := (pia ! m)\<lparr>stoatid := sid, pheromoneid := p, i_ndays := d\<rparr>]"
proof (induction pia arbitrary: pia')
  case Nil
  then show ?case by simp
next
  case (Cons e es)
  show ?case
  proof (cases "stoatid e = -1")
    case True
    with Cons.prems have "pia' = (e # es)[0 := ((e # es) ! 0)\<lparr>stoatid := sid, pheromoneid := p, i_ndays := d\<rparr>]"
      by simp
    moreover have "firstFreeInteraction (e # es) 0" using True by (simp add: firstFreeInteraction_def)
    ultimately show ?thesis by blast
  next
    case False
    with Cons.prems obtain es' where es': "recordInteraction es sid p d = Some es'" and ma': "pia' = e # es'"
      by auto
    from Cons.IH [OF es'] obtain m where m: "firstFreeInteraction es m"
      and eq: "es' = es[m := (es ! m)\<lparr>stoatid := sid, pheromoneid := p, i_ndays := d\<rparr>]" by blast
    have "firstFreeInteraction (e # es) (Suc m)"
      using m False by (auto simp: firstFreeInteraction_def less_Suc_eq_0_disj)
    moreover have "pia' = (e # es)[Suc m := ((e # es) ! Suc m)\<lparr>stoatid := sid, pheromoneid := p, i_ndays := d\<rparr>]"
      using ma' eq by simp
    ultimately show ?thesis by blast
  qed
qed

lemma pher_loop_no_station:
  "\<forall>p\<in>set ps. \<not> stationInRange x y pa enc p \<Longrightarrow>
   doPheromoneInteraction_loop x y sid pa enc hab ps pia = Inr pia"
  by (induction ps) (auto simp: stationInRange_def)

lemma pher_loop_station:
  "\<exists>p\<in>set ps. stationInRange x y pa enc p \<Longrightarrow>
   \<exists>p\<in>set ps. stationInRange x y pa enc p \<and>
     doPheromoneInteraction_loop x y sid pa enc hab ps pia =
       (case recordInteraction pia sid (int32 (int p)) (int32 hab) of
          None \<Rightarrow> Inl UnableToAddInteraction | Some pia' \<Rightarrow> Inr pia')"
  by (induction ps) (auto simp: stationInRange_def)

lemma sameButPregnancy_refl [simp]: "sameButPregnancy a a"
  by (simp add: sameButPregnancy_def)

lemma sameButPregnancy_update [simp]:
  "sameButPregnancy a (a\<lparr>pregnant := p, pregnant_day := d\<rparr>)"
  by (simp add: sameButPregnancy_def)

lemma sameButPregnancy_trans:
  "sameButPregnancy a b \<Longrightarrow> sameButPregnancy b c \<Longrightarrow> sameButPregnancy a c"
  by (cases a, cases b, cases c) (simp add: sameButPregnancy_def)

lemma sameButPregnancy_fields:
  assumes "sameButPregnancy a b"
  shows "deleted b = deleted a" "male b = male a" "xpos b = xpos a" "ypos b = ypos a"
    "home_x b = home_x a" "home_y b = home_y a" "stoat_id b = stoat_id a"
    "parentid b = parentid a" "bearingT_1 b = bearingT_1 a" "homerange b = homerange a"
  using assms by (cases a, cases b, simp add: sameButPregnancy_def)+

lemma nth_update_any: "(xs[n := v]) ! j = (if j = n \<and> n < length xs then v else xs ! j)"
  by (cases "n < length xs") (auto simp: nth_list_update list_update_beyond)

lemma binomial1_total: "0 \<le> p \<Longrightarrow> p \<le> 1 \<Longrightarrow> \<exists>b. binomial1 R k p = Inr b"
  by (auto simp: binomial1_def)

lemma offspringPregnant_frame:
  "offspringPregnant R day prob i ns (sa, rp) = Inr (sa', rp') \<Longrightarrow>
   length sa' = length sa \<and> (\<forall>j. sameButPregnancy (sa ! j) (sa' ! j))"
proof (induction ns arbitrary: sa rp)
  case Nil
  then show ?case by simp
next
  case (Cons n ns)
  show ?case
  proof (cases "parentid (sa ! n) = stoat_id (sa ! i) \<and> \<not> male (sa ! n)")
    case False
    with Cons show ?thesis by auto
  next
    case True
    with Cons.prems obtain b where b: "binomial1 R rp prob = Inr b"
      and rest: "offspringPregnant R day prob i ns
         (if b then sa[n := (sa ! n)\<lparr>pregnant := True, pregnant_day := int32 day\<rparr>] else sa, rp + 1)
         = Inr (sa', rp')"
      by (auto split: sum.splits)
    let ?sa1 = "if b then sa[n := (sa ! n)\<lparr>pregnant := True, pregnant_day := int32 day\<rparr>] else sa"
    from Cons.IH [OF rest] have len: "length sa' = length ?sa1"
      and fr: "\<forall>j. sameButPregnancy (?sa1 ! j) (sa' ! j)" by auto
    have "\<forall>j. sameButPregnancy (sa ! j) (?sa1 ! j)"
      by (simp add: nth_update_any)
    with fr have "\<forall>j. sameButPregnancy (sa ! j) (sa' ! j)"
      by (blast intro: sameButPregnancy_trans)
    with len show ?thesis by simp
  qed
qed

lemma offspringPregnant_total:
  "0 \<le> prob \<Longrightarrow> prob \<le> 1 \<Longrightarrow> \<exists>sa' rp'. offspringPregnant R day prob i ns (sa, rp) = Inr (sa', rp')"
proof (induction ns arbitrary: sa rp)
  case Nil
  then show ?case by simp
next
  case (Cons n ns)
  from binomial1_total [OF Cons.prems] obtain b where "binomial1 R rp prob = Inr b" by blast
  with Cons show ?case by auto
qed

lemma impregnate_frame:
  "impregnate R nStoats day prob i (sa, rp) = Inr (sa', rp') \<Longrightarrow>
   length sa' = length sa \<and> (\<forall>j. sameButPregnancy (sa ! j) (sa' ! j))"
proof -
  assume a: "impregnate R nStoats day prob i (sa, rp) = Inr (sa', rp')"
  show ?thesis
  proof (cases "\<not> pregnant (sa ! i)")
    case False
    with a show ?thesis by (simp add: impregnate_def)
  next
    case True
    with a obtain b where b: "binomial1 R rp prob = Inr b"
      and r: "(if b then offspringPregnant R day prob i [0 ..< nStoats]
                 (sa[i := (sa ! i)\<lparr>pregnant := True, pregnant_day := int32 day\<rparr>], rp + 1)
               else Inr (sa, rp + 1)) = Inr (sa', rp')"
      by (auto simp: impregnate_def split: sum.splits)
    show ?thesis
    proof (cases b)
      case False
      with r show ?thesis by simp
    next
      case True
      let ?sa1 = "sa[i := (sa ! i)\<lparr>pregnant := True, pregnant_day := int32 day\<rparr>]"
      from True r have "offspringPregnant R day prob i [0 ..< nStoats] (?sa1, rp + 1) = Inr (sa', rp')"
        by simp
      from offspringPregnant_frame [OF this]
      have len: "length sa' = length ?sa1" and fr: "\<forall>j. sameButPregnancy (?sa1 ! j) (sa' ! j)" by auto
      have "\<forall>j. sameButPregnancy (sa ! j) (?sa1 ! j)" by (simp add: nth_update_any)
      with fr have "\<forall>j. sameButPregnancy (sa ! j) (sa' ! j)"
        by (blast intro: sameButPregnancy_trans)
      with len show ?thesis by simp
    qed
  qed
qed

lemma impregnate_total:
  assumes "0 \<le> prob" "prob \<le> 1"
  shows "\<exists>sa' rp'. impregnate R nStoats day prob i (sa, rp) = Inr (sa', rp')"
proof -
  from binomial1_total [OF assms] obtain b where b: "binomial1 R rp prob = Inr b" by blast
  from offspringPregnant_total [OF assms]
  obtain sa' rp' where "offspringPregnant R day prob i [0 ..< nStoats]
        (sa[i := (sa ! i)\<lparr>pregnant := True, pregnant_day := int32 day\<rparr>], rp + 1) = Inr (sa', rp')"
    by blast
  with b show ?thesis by (simp add: impregnate_def)
qed

lemma mating_loop_none:
  "\<forall>i\<in>set js. \<not> femaleEncountered x y sid sa ma enc i \<Longrightarrow>
   doMaleMating_loop R x y sid n enc hab day prob js (sa, ma, rp) = Inr (False, sa, ma, rp)"
  by (induction js) (auto simp: femaleEncountered_def)

lemma mating_loop_some:
  "\<exists>i\<in>set js. femaleEncountered x y sid sa ma enc i \<Longrightarrow>
   \<exists>i\<in>set js. femaleEncountered x y sid sa ma enc i \<and>
     doMaleMating_loop R x y sid n enc hab day prob js (sa, ma, rp) =
       (case impregnate R n day prob i (sa, rp) of
          Inl e \<Rightarrow> Inl e
        | Inr (sa', rp') \<Rightarrow>
            (case recordMating ma sid (stoat_id (sa' ! i)) (int32 hab) of
               None \<Rightarrow> Inl UnableToAddMating
             | Some ma' \<Rightarrow> Inr (True, sa', ma', rp')))"
proof (induction js)
  case Nil
  then show ?case by simp
next
  case (Cons j js)
  show ?case
  proof (cases "femaleEncountered x y sid sa ma enc j")
    case True
    then show ?thesis by (auto simp: femaleEncountered_def)
  next
    case False
    with Cons.prems have "\<exists>i\<in>set js. femaleEncountered x y sid sa ma enc i" by auto
    from Cons.IH [OF this] obtain i where i: "i \<in> set js" "femaleEncountered x y sid sa ma enc i"
      and eq: "doMaleMating_loop R x y sid n enc hab day prob js (sa, ma, rp) =
       (case impregnate R n day prob i (sa, rp) of
          Inl e \<Rightarrow> Inl e
        | Inr (sa', rp') \<Rightarrow>
            (case recordMating ma sid (stoat_id (sa' ! i)) (int32 hab) of
               None \<Rightarrow> Inl UnableToAddMating
             | Some ma' \<Rightarrow> Inr (True, sa', ma', rp')))" by blast
    have "doMaleMating_loop R x y sid n enc hab day prob (j # js) (sa, ma, rp)
          = doMaleMating_loop R x y sid n enc hab day prob js (sa, ma, rp)"
      using False by (auto simp: femaleEncountered_def)
    with i eq show ?thesis by auto
  qed
qed

lemma dist2d_less_iff: "0 \<le> c \<Longrightarrow> (dist2d a b < c) = (a * a + b * b < c * c)"
proof -
  assume c: "0 \<le> c"
  have "(sqrt (a * a + b * b) < c) = (sqrt (a * a + b * b) < sqrt (c * c))"
    using c by simp
  also have "\<dots> = (a * a + b * b < c * c)"
    by (rule real_sqrt_less_iff)
  finally show ?thesis by (simp add: dist2d_def)
qed

lemma upt_0_2: "[0 ..< 2] = [0, Suc 0]"
  by (simp add: upt_rec)

lemmas eval_defs = upt_0_2
  processStoat_def homerangeBehaviourOf_def matingOrBirth_def birthDue_def pheromonePhase_def
  doPheromoneInteraction_def killDecision_def checkWithinDistanceOfTraps_def inArray_def
  binomial1_def killStoat_def purgeMatings_def purgeInteractions_def int32_def
  adultAt_def kitOf_def freeMating_def freeInteraction_def dist2d_less_iff

text \<open>
  Claim C8. With a valid pregnancy probability, \<open>doMaleMating\<close> raises
  'Unable to add mating' exactly when the male encounters a female and no entry of the
  mating table has \<open>maleid = -1\<close>; when he encounters one and a free entry exists, the
  call returns without error, \<open>mated\<close> is true and the first free entry holds the pair
  and the habituation days. \<open>doPheromoneInteraction\<close> raises
  'Unable to add to pheromoneInteractionArray' exactly when a station is within
  encounter distance and no entry of the habituation table has \<open>stoatid = -1\<close>; when a
  station is in range and a free entry exists, the first free entry is filled.
\<close>

theorem ledger_full_raises_iff_full:
  assumes "0 \<le> probPregnacy" and "probPregnacy \<le> 1"
  shows
   "((doMaleMating R x y sid sa n enc ma hab day probPregnacy rp = Inl UnableToAddMating)
       = ((\<exists>i<n. femaleEncountered x y sid sa ma enc i) \<and> (\<forall>e\<in>set ma. maleid e \<noteq> -1)))
    \<and> ((\<exists>i<n. femaleEncountered x y sid sa ma enc i) \<and> (\<exists>e\<in>set ma. maleid e = -1) \<longrightarrow>
         (\<exists>i<n. \<exists>m sa' rp'. femaleEncountered x y sid sa ma enc i \<and> firstFreeMating ma m \<and>
            doMaleMating R x y sid sa n enc ma hab day probPregnacy rp =
              Inr (True, sa',
                   ma[m := (ma ! m)\<lparr>maleid := sid, femaleid := stoat_id (sa ! i),
                                      m_ndays := int32 hab\<rparr>], rp')))
    \<and> ((doPheromoneInteraction x y sid sa n pa enc pia hab = Inl UnableToAddInteraction)
       = ((\<exists>p<length pa. stationInRange x y pa enc p) \<and> (\<forall>e\<in>set pia. stoatid e \<noteq> -1)))
    \<and> ((\<exists>p<length pa. stationInRange x y pa enc p) \<and> (\<exists>e\<in>set pia. stoatid e = -1) \<longrightarrow>
         (\<exists>p<length pa. \<exists>m. stationInRange x y pa enc p \<and> firstFreeInteraction pia m \<and>
            doPheromoneInteraction x y sid sa n pa enc pia hab =
              Inr (pia[m := (pia ! m)\<lparr>stoatid := sid, pheromoneid := int32 (int p),
                                        i_ndays := int32 hab\<rparr>])))"
proof -
  let ?M = "doMaleMating R x y sid sa n enc ma hab day probPregnacy rp"
  let ?encM = "\<exists>i<n. femaleEncountered x y sid sa ma enc i"
  have M_none: "?M = Inr (False, sa, ma, rp)" if "\<not> ?encM"
    using that mating_loop_none [of "[0 ..< n]" x y sid sa ma enc R n hab day probPregnacy rp]
    by (auto simp: doMaleMating_def)
  have M_some: "\<exists>i<n. \<exists>sa' rp'. femaleEncountered x y sid sa ma enc i \<and>
        stoat_id (sa' ! i) = stoat_id (sa ! i) \<and>
        ?M = (case recordMating ma sid (stoat_id (sa ! i)) (int32 hab) of
                None \<Rightarrow> Inl UnableToAddMating | Some ma' \<Rightarrow> Inr (True, sa', ma', rp'))" if "?encM"
  proof -
    from that have "\<exists>i\<in>set [0 ..< n]. femaleEncountered x y sid sa ma enc i" by auto
    from mating_loop_some [OF this, of R n hab day probPregnacy rp]
    obtain i where i: "i < n" "femaleEncountered x y sid sa ma enc i"
      and eq: "?M = (case impregnate R n day probPregnacy i (sa, rp) of
          Inl e \<Rightarrow> Inl e
        | Inr (sa', rp') \<Rightarrow>
            (case recordMating ma sid (stoat_id (sa' ! i)) (int32 hab) of
               None \<Rightarrow> Inl UnableToAddMating
             | Some ma' \<Rightarrow> Inr (True, sa', ma', rp')))"
      by (auto simp: doMaleMating_def)
    from impregnate_total [OF assms] obtain sa' rp'
      where imp: "impregnate R n day probPregnacy i (sa, rp) = Inr (sa', rp')" by blast
    from impregnate_frame [OF imp] have "stoat_id (sa' ! i) = stoat_id (sa ! i)"
      by (simp add: sameButPregnancy_fields)
    with i eq imp show ?thesis by auto
  qed
  have c1: "(?M = Inl UnableToAddMating) = (?encM \<and> (\<forall>e\<in>set ma. maleid e \<noteq> -1))"
  proof (cases ?encM)
    case False
    with M_none show ?thesis by simp
  next
    case True
    from M_some [OF True] obtain i sa' rp' where
      eq: "?M = (case recordMating ma sid (stoat_id (sa ! i)) (int32 hab) of
                None \<Rightarrow> Inl UnableToAddMating | Some ma' \<Rightarrow> Inr (True, sa', ma', rp'))" by blast
    show ?thesis
      using True eq recordMating_None [of ma sid "stoat_id (sa ! i)" "int32 hab"]
      by (cases "recordMating ma sid (stoat_id (sa ! i)) (int32 hab)") auto
  qed
  have c2: "\<exists>i<n. \<exists>m sa' rp'. femaleEncountered x y sid sa ma enc i \<and> firstFreeMating ma m \<and>
            ?M = Inr (True, sa',
                   ma[m := (ma ! m)\<lparr>maleid := sid, femaleid := stoat_id (sa ! i),
                                      m_ndays := int32 hab\<rparr>], rp')"
    if e: "?encM" and f: "\<exists>e\<in>set ma. maleid e = -1"
  proof -
    from M_some [OF e] obtain i sa' rp' where i: "i < n" "femaleEncountered x y sid sa ma enc i" and
      eq: "?M = (case recordMating ma sid (stoat_id (sa ! i)) (int32 hab) of
                None \<Rightarrow> Inl UnableToAddMating | Some ma' \<Rightarrow> Inr (True, sa', ma', rp'))" by blast
    from f recordMating_None [of ma sid "stoat_id (sa ! i)" "int32 hab"]
    obtain ma' where ma': "recordMating ma sid (stoat_id (sa ! i)) (int32 hab) = Some ma'" by auto
    from recordMating_Some [OF ma'] obtain m where "firstFreeMating ma m"
      "ma' = ma[m := (ma ! m)\<lparr>maleid := sid, femaleid := stoat_id (sa ! i), m_ndays := int32 hab\<rparr>]"
      by blast
    with i eq ma' show ?thesis by auto
  qed
  let ?I = "doPheromoneInteraction x y sid sa n pa enc pia hab"
  let ?encI = "\<exists>p<length pa. stationInRange x y pa enc p"
  have I_none: "?I = Inr pia" if "\<not> ?encI"
    using that pher_loop_no_station [of "[0 ..< length pa]" x y pa enc sid hab pia]
    by (auto simp: doPheromoneInteraction_def)
  have I_some: "\<exists>p<length pa. stationInRange x y pa enc p \<and>
        ?I = (case recordInteraction pia sid (int32 (int p)) (int32 hab) of
                None \<Rightarrow> Inl UnableToAddInteraction | Some pia' \<Rightarrow> Inr pia')" if "?encI"
  proof -
    from that have "\<exists>p\<in>set [0 ..< length pa]. stationInRange x y pa enc p" by auto
    from pher_loop_station [OF this, of sid hab pia] show ?thesis
      by (auto simp: doPheromoneInteraction_def)
  qed
  have c3: "(?I = Inl UnableToAddInteraction) = (?encI \<and> (\<forall>e\<in>set pia. stoatid e \<noteq> -1))"
  proof (cases ?encI)
    case False
    with I_none show ?thesis by simp
  next
    case True
    from I_some [OF True] obtain p where
      eq: "?I = (case recordInteraction pia sid (int32 (int p)) (int32 hab) of
                None \<Rightarrow> Inl UnableToAddInteraction | Some pia' \<Rightarrow> Inr pia')" by blast
    show ?thesis
      using True eq recordInteraction_None [of pia sid "int32 (int p)" "int32 hab"]
      by (cases "recordInteraction pia sid (int32 (int p)) (int32 hab)") auto
  qed
  have c4: "\<exists>p<length pa. \<exists>m. stationInRange x y pa enc p \<and> firstFreeInteraction pia m \<and>
            ?I = Inr (pia[m := (pia ! m)\<lparr>stoatid := sid, pheromoneid := int32 (int p),
                                        i_ndays := int32 hab\<rparr>])"
    if e: "?encI" and f: "\<exists>e\<in>set pia. stoatid e = -1"
  proof -
    from I_some [OF e] obtain p where p: "p < length pa" "stationInRange x y pa enc p" and
      eq: "?I = (case recordInteraction pia sid (int32 (int p)) (int32 hab) of
                None \<Rightarrow> Inl UnableToAddInteraction | Some pia' \<Rightarrow> Inr pia')" by blast
    from f recordInteraction_None [of pia sid "int32 (int p)" "int32 hab"]
    obtain pia' where pia': "recordInteraction pia sid (int32 (int p)) (int32 hab) = Some pia'" by auto
    from recordInteraction_Some [OF pia'] obtain m where "firstFreeInteraction pia m"
      "pia' = pia[m := (pia ! m)\<lparr>stoatid := sid, pheromoneid := int32 (int p), i_ndays := int32 hab\<rparr>]"
      by blast
    with p eq pia' show ?thesis by auto
  qed
  from c1 c2 c3 c4 show ?thesis by blast
qed

lemma dist2d_zero [simp]: "dist2d 0 0 = 0"
  by (simp add: dist2d_def)

text \<open>
  Claim C8, at full tables of one entry each: both calls raise.
\<close>

theorem ledger_full_raises_iff_full_witness:
  "(0::real) \<le> 1 / 2 \<and> (1 / 2 :: real) \<le> 1
   \<and> doMaleMating rng0 0 0 7 [adultAt False 4 0 0] 1 25 [\<lparr>maleid = 3, femaleid = 5, m_ndays = 2\<rparr>]
        19 0 (1 / 2) 0 = Inl UnableToAddMating
   \<and> doPheromoneInteraction 0 0 7 [adultAt False 4 0 0] 1 [\<lparr>ph_x = 0, ph_y = 0\<rparr>] 25
        [\<lparr>pheromoneid = 0, stoatid = 3, i_ndays = 2\<rparr>] 19 = Inl UnableToAddInteraction"
  using ledger_full_raises_iff_full [of "1 / 2" rng0 0 0 7 "[adultAt False 4 0 0]" 1 25
      "[\<lparr>maleid = 3, femaleid = 5, m_ndays = 2\<rparr>]" 19 0 0 "[\<lparr>ph_x = 0, ph_y = 0\<rparr>]"
      "[\<lparr>pheromoneid = 0, stoatid = 3, i_ndays = 2\<rparr>]"]
  by (simp add: femaleEncountered_def stationInRange_def adultAt_def alreadyMatedWith_def)

text \<open>
  Claim C3 fails on the code. Stoat 5 stands on station 0 and the table already holds
  the active entry (station 0, stoat 5, 3 days): \<open>doPheromoneInteraction\<close> fills the
  free slot with a second entry for the same station and stoat. The scan for an
  existing entry (lines 290-294) ends in a \<open>continue\<close> of the scan itself and gates
  nothing; \<open>checkForEstrousMatesAndDecoysInRadius\<close> does the same test with a flag.
\<close>

theorem habituated_stoat_gets_second_entry:
  "doPheromoneInteraction 0 0 5 sa n [\<lparr>ph_x = 0, ph_y = 0\<rparr>] 25
     [\<lparr>pheromoneid = 0, stoatid = 5, i_ndays = 3\<rparr>, \<lparr>pheromoneid = 0, stoatid = -1, i_ndays = 0\<rparr>] 19
   = Inr [\<lparr>pheromoneid = 0, stoatid = 5, i_ndays = 3\<rparr>, \<lparr>pheromoneid = 0, stoatid = 5, i_ndays = 19\<rparr>]"
  by (simp add: doPheromoneInteraction_def int32_def)

text \<open>
  Claim C7 fails on the code at day 0. A seeded female has
  \<open>pregnant_day = -nDaysPregnantBeforeBirth\<close>, and the birth test is the strict
  \<open>day - pregnant_day > nDaysPregnantBeforeBirth\<close>: with a threshold of 180 days and
  births scheduled on days 0 and 1 she is not due at hour 0 of day 0, only on day 1.
\<close>

theorem seeded_female_not_due_on_day_0:
  "\<not> birthDue (P\<lparr>p_birthDays := [0, 1], p_nDaysPregnantBeforeBirth := 180\<rparr>) 0 0
       (seedStoat old 0 drawnMale x y 180 cid)
   \<and> birthDue (P\<lparr>p_birthDays := [0, 1], p_nDaysPregnantBeforeBirth := 180\<rparr>) 1 0
       (seedStoat old 0 drawnMale x y 180 cid)"
  by (simp add: birthDue_def gestationExceeded_def seedStoat_def int32_def inArray_def)

lemma reuseDeleted_none:
  "\<forall>i\<in>set js. \<not> deleted (sa ! i) \<Longrightarrow> reuseDeleted R x y m js (sa, k, cid, rp) = (sa, k, cid, rp)"
  by (induction js) auto

text \<open>
  Claim C2 fails on the code. With all 1000 slots live and \<open>nStoats = 1000\<close>, a birth
  of one kit writes the kit at index 1000, outside the array, before the count is
  compared with the capacity.
\<close>

theorem birth_into_full_array_writes_out_of_bounds:
  "doBirth rng0 (replicate 1000 (adultAt False 0 0 0)) 1000 0 9 1000 0 = Inl IndexOutOfBounds"
proof -
  have "reuseDeleted rng0 0 0 0 [0 ..< 1000] (replicate 1000 (adultAt False 0 0 0), Suc 0, 1000, 1)
        = (replicate 1000 (adultAt False 0 0 0), Suc 0, 1000, 1)"
    by (rule reuseDeleted_none) (simp add: adultAt_def)
  then show ?thesis
    by (simp add: doBirth_def poisson1_def rng0_def adultAt_def)
qed

lemma liveCount_le: "liveCount st \<le> st_nStoats st"
  unfolding liveCount_def by (rule order_trans [OF length_filter_le]) simp

text \<open>
  Claim C9. If at the start of a day more than 175 stoats are live, or more than 175
  slots are in use (the variable \<open>nStoats\<close> that the code tests), the day is not
  processed: the loop over the days ends with the state unchanged and the function
  returns False, without an error.
\<close>

theorem explosion_guard_returns_false:
  assumes "175 < liveCount st \<or> 175 < st_nStoats st"
  shows "runDay P R fuel day eradication st = Inr (Returned False st)
         \<and> dayLoop P R fuel (day # rest) eradication st = Inr (False, st)"
proof -
  from assms liveCount_le [of st] have "175 < st_nStoats st" by auto
  then show ?thesis by (simp add: runDay_def)
qed

text \<open>
  Claim C9, at a state with 176 slots in use on day 0 of a two-day horizon.
\<close>

theorem explosion_guard_returns_false_witness:
  "(175 < liveCount c9_state \<or> 175 < st_nStoats c9_state)
   \<and> runDay params0 rng0 1 0 None c9_state = Inr (Returned False c9_state)
   \<and> dayLoop params0 rng0 1 [0, 1] None c9_state = Inr (False, c9_state)"
proof -
  have h: "175 < liveCount c9_state \<or> 175 < st_nStoats c9_state"
    by (simp add: c9_state_def)
  from explosion_guard_returns_false [OF h, of params0 rng0 1 0 None "[1]"] h
  show ?thesis by simp
qed

text \<open>
  Claim C1 fails on the code. In hour 0 the kit (slot 0, id 1) records a habituation
  to the station it stands on; then its mother (slot 1, id 0) is trapped, the kit is
  deleted with her, and only the entries that name id 0 are freed: at the end of the
  hour the kit is deleted and the first entry of the habituation table still names
  id 1.
\<close>

theorem cascade_deleted_kit_keeps_habituation_entry:
  "runHour params0 rng0 1 0 0 c1_state = Inr (False, c1_after)
   \<and> deleted (st_stoatArray c1_after ! 0)
   \<and> stoat_id (st_stoatArray c1_after ! 0) = 1
   \<and> stoatid (st_pheromoneInteractionArray c1_after ! 0) = 1"
proof -
  let ?st1 = "c1_state\<lparr>st_stoatArray := [(kitOf 0 True 1 0 200)\<lparr>homerange := True\<rparr>, adultAt False 0 100 200],
         st_pheromoneInteractionArray := [\<lparr>pheromoneid = 0, stoatid = 1, i_ndays = 19\<rparr>, freeInteraction]\<rparr>"
  have s0: "processStoat params0 rng0 1 0 0 0 c1_state = Inr ?st1"
    by (simp add: eval_defs c1_state_def params0_def)
  have s1: "processStoat params0 rng0 1 0 0 1 ?st1 = Inr c1_after"
    by (simp add: eval_defs c1_state_def c1_after_def params0_def)
  have idx: "[0 ..< st_nStoats c1_state] = [0, 1]"
    by (simp add: c1_state_def upt_rec)
  have live0: "\<not> deleted (st_stoatArray c1_state ! 0)"
    by (simp add: c1_state_def kitOf_def adultAt_def)
  have live1: "\<not> deleted (st_stoatArray ?st1 ! 1)"
    by (simp add: c1_state_def kitOf_def adultAt_def)
  have "runHour params0 rng0 1 0 0 c1_state = Inr (False, c1_after)"
    unfolding runHour_def idx using s0 s1 live0 live1 by simp
  moreover have "deleted (st_stoatArray c1_after ! 0) \<and> stoat_id (st_stoatArray c1_after ! 0) = 1
      \<and> stoatid (st_pheromoneInteractionArray c1_after ! 0) = 1"
    by (simp add: c1_after_def kitOf_def adultAt_def)
  ultimately show ?thesis by simp
qed


lemma npRound_half [simp]: "npRound (1 / 2) = 0"
  by (simp add: npRound_def)


section \<open>What each operation changes\<close>

lemma doMaleMating_effect:
  assumes "doMaleMating R x y sid sa n enc ma hab day prob rp = Inr (mated, sa', ma', rp')"
  shows "length sa' = length sa \<and> (\<forall>j. sameButPregnancy (sa ! j) (sa' ! j))
         \<and> ((\<not> mated \<and> ma' = ma)
            \<or> (mated \<and> (\<exists>i<n. \<exists>m. femaleEncountered x y sid sa ma enc i \<and> firstFreeMating ma m
                  \<and> ma' = ma[m := (ma ! m)\<lparr>maleid := sid, femaleid := stoat_id (sa ! i),
                                             m_ndays := int32 hab\<rparr>])))"
proof (cases "\<exists>i<n. femaleEncountered x y sid sa ma enc i")
  case False
  then have "doMaleMating R x y sid sa n enc ma hab day prob rp = Inr (False, sa, ma, rp)"
    using mating_loop_none [of "[0 ..< n]" x y sid sa ma enc R n hab day prob rp]
    by (auto simp: doMaleMating_def)
  with assms show ?thesis by simp
next
  case True
  then have "\<exists>i\<in>set [0 ..< n]. femaleEncountered x y sid sa ma enc i" by auto
  from mating_loop_some [OF this, of R n hab day prob rp]
  obtain i where i: "i < n" "femaleEncountered x y sid sa ma enc i"
    and eq: "doMaleMating R x y sid sa n enc ma hab day prob rp =
       (case impregnate R n day prob i (sa, rp) of
          Inl e \<Rightarrow> Inl e
        | Inr (sa', rp') \<Rightarrow>
            (case recordMating ma sid (stoat_id (sa' ! i)) (int32 hab) of
               None \<Rightarrow> Inl UnableToAddMating
             | Some ma' \<Rightarrow> Inr (True, sa', ma', rp')))"
    by (auto simp: doMaleMating_def)
  from eq assms obtain sa1 rp1 where imp: "impregnate R n day prob i (sa, rp) = Inr (sa1, rp1)"
    by (cases "impregnate R n day prob i (sa, rp)") auto
  from eq assms imp obtain ma1 where rec: "recordMating ma sid (stoat_id (sa1 ! i)) (int32 hab) = Some ma1"
    by (cases "recordMating ma sid (stoat_id (sa1 ! i)) (int32 hab)") auto
  from eq assms imp rec have res: "mated" "sa' = sa1" "ma' = ma1" by auto
  from impregnate_frame [OF imp] have fr: "length sa1 = length sa" "\<forall>j. sameButPregnancy (sa ! j) (sa1 ! j)"
    by auto
  then have id: "stoat_id (sa1 ! i) = stoat_id (sa ! i)" by (simp add: sameButPregnancy_fields)
  from recordMating_Some [OF rec] id obtain m where "firstFreeMating ma m"
    "ma1 = ma[m := (ma ! m)\<lparr>maleid := sid, femaleid := stoat_id (sa ! i), m_ndays := int32 hab\<rparr>]"
    by auto
  with i res fr show ?thesis by blast
qed

lemma killChildren_effect:
  "length (killChildren s js sa) = length sa
   \<and> (\<forall>j. killChildren s js sa ! j =
           (if j \<in> set js \<and> j < length sa \<and> parentid (sa ! j) = stoat_id (sa ! s)
            then (sa ! j)\<lparr>deleted := True\<rparr> else sa ! j))"
proof (induction js arbitrary: sa)
  case Nil
  then show ?case by simp
next
  case (Cons i js)
  let ?sa1 = "if parentid (sa ! i) = stoat_id (sa ! s) then sa[i := (sa ! i)\<lparr>deleted := True\<rparr>] else sa"
  have len1: "length ?sa1 = length sa" by simp
  have pid: "\<And>j. parentid (?sa1 ! j) = parentid (sa ! j)"
    by (simp add: nth_update_any)
  have sid: "\<And>j. stoat_id (?sa1 ! j) = stoat_id (sa ! j)"
    by (simp add: nth_update_any)
  from Cons.IH [of ?sa1]
  have len: "length (killChildren s js ?sa1) = length ?sa1"
    and eq: "\<And>j. killChildren s js ?sa1 ! j =
           (if j \<in> set js \<and> j < length ?sa1 \<and> parentid (?sa1 ! j) = stoat_id (?sa1 ! s)
            then (?sa1 ! j)\<lparr>deleted := True\<rparr> else ?sa1 ! j)" by auto
  have "\<And>j. killChildren s (i # js) sa ! j =
           (if j \<in> set (i # js) \<and> j < length sa \<and> parentid (sa ! j) = stoat_id (sa ! s)
            then (sa ! j)\<lparr>deleted := True\<rparr> else sa ! j)"
    unfolding killChildren.simps eq pid sid len1
    by (auto simp: nth_update_any)
  with len len1 show ?case by simp
qed

lemma isKitOf_mono:
  assumes "isKitOf pid x y cid1 cid' old new" and "cid0 \<le> cid1"
  shows "isKitOf pid x y cid0 cid' old new"
proof -
  from assms(1) obtain b c where "cid1 \<le> c" "c < cid'" "new = newKit old x y b c pid"
    unfolding isKitOf_def by blast
  with assms(2) have "cid0 \<le> c \<and> c < cid' \<and> new = newKit old x y b c pid" by simp
  then show ?thesis unfolding isKitOf_def by blast
qed

lemma isKitOfI:
  "cid \<le> c \<Longrightarrow> c < cid' \<Longrightarrow> new = newKit old x y b c pid \<Longrightarrow> isKitOf pid x y cid cid' old new"
  unfolding isKitOf_def by blast

lemma isKitOf_mono_upper:
  assumes "isKitOf pid x y cid cid1 old new" and "cid1 \<le> cid'"
  shows "isKitOf pid x y cid cid' old new"
proof -
  from assms(1) obtain b c where "cid \<le> c" "c < cid1" "new = newKit old x y b c pid"
    unfolding isKitOf_def by blast
  with assms(2) have "cid \<le> c \<and> c < cid' \<and> new = newKit old x y b c pid" by simp
  then show ?thesis unfolding isKitOf_def by blast
qed

lemma newKit_not_deleted [simp]: "\<not> deleted (newKit old x y b c pid)"
  by (simp add: newKit_def)

lemma reuseDeleted_effect:
  assumes "reuseDeleted R x y m js (sa, k, cid, rp) = (sa', k', cid', rp')"
    and "\<not> deleted (sa ! m)"
  shows "length sa' = length sa \<and> cid \<le> cid' \<and> sa' ! m = sa ! m
         \<and> (\<forall>j. sa' ! j = sa ! j
                \<or> (j \<in> set js \<and> j < length sa \<and> deleted (sa ! j)
                   \<and> isKitOf (stoat_id (sa ! m)) x y cid cid' (sa ! j) (sa' ! j)))"
  using assms
proof (induction js arbitrary: sa k cid rp)
  case Nil
  then show ?case by simp
next
  case (Cons i js)
  show ?case
  proof (cases "k > 0 \<and> deleted (sa ! i)")
    case False
    show ?thesis
    proof (cases "k > 0")
      case True
      with False Cons.prems have r: "reuseDeleted R x y m js (sa, k, cid, rp) = (sa', k', cid', rp')"
        by simp
      from Cons.IH [OF r Cons.prems(2)] show ?thesis by auto
    next
      case False
      with Cons.prems show ?thesis by simp
    qed
  next
    case True
    let ?sa1 = "sa[i := newKit (sa ! i) x y (rnd_random R rp < 0.5) cid (stoat_id (sa ! m))]"
    from True Cons.prems(2) have im: "i \<noteq> m" by auto
    then have m1: "?sa1 ! m = sa ! m" by simp
    from True Cons.prems have r: "reuseDeleted R x y m js (?sa1, k - 1, cid + 1, rp + 1) = (sa', k', cid', rp')"
      by simp
    have live1: "\<not> deleted (?sa1 ! m)" using m1 Cons.prems(2) by simp
    from Cons.IH [OF r live1] m1
    have len: "length sa' = length sa" and c: "cid + 1 \<le> cid'" and mm: "sa' ! m = sa ! m"
      and all: "\<forall>j. sa' ! j = ?sa1 ! j
                \<or> (j \<in> set js \<and> j < length sa \<and> deleted (?sa1 ! j)
                   \<and> isKitOf (stoat_id (sa ! m)) x y (cid + 1) cid' (?sa1 ! j) (sa' ! j))"
      by auto
    have "sa' ! j = sa ! j
                \<or> (j \<in> set (i # js) \<and> j < length sa \<and> deleted (sa ! j)
                   \<and> isKitOf (stoat_id (sa ! m)) x y cid cid' (sa ! j) (sa' ! j))" for j
    proof -
      from all have "sa' ! j = ?sa1 ! j
                \<or> (j \<in> set js \<and> j < length sa \<and> deleted (?sa1 ! j)
                   \<and> isKitOf (stoat_id (sa ! m)) x y (cid + 1) cid' (?sa1 ! j) (sa' ! j))" by blast
      then show ?thesis
      proof
        assume eq: "sa' ! j = ?sa1 ! j"
        show ?thesis
        proof (cases "j = i \<and> i < length sa")
          case False
          then have "?sa1 ! j = sa ! j" by (auto simp: nth_update_any)
          with eq show ?thesis by simp
        next
          case T: True
          then have "sa' ! j = newKit (sa ! j) x y (rnd_random R rp < 0.5) cid (stoat_id (sa ! m))"
            using eq by simp
          moreover have "cid \<le> cid" "cid < cid'" using c by simp_all
          ultimately have "isKitOf (stoat_id (sa ! m)) x y cid cid' (sa ! j) (sa' ! j)"
            by (blast intro: isKitOfI)
          with T True show ?thesis by auto
        qed
      next
        assume k: "j \<in> set js \<and> j < length sa \<and> deleted (?sa1 ! j)
                   \<and> isKitOf (stoat_id (sa ! m)) x y (cid + 1) cid' (?sa1 ! j) (sa' ! j)"
        then have "\<not> (j = i \<and> i < length sa)" by auto
        then have "?sa1 ! j = sa ! j" by (auto simp: nth_update_any)
        with k show ?thesis by (auto intro: isKitOf_mono)
      qed
    qed
    with len c mm show ?thesis by simp
  qed
qed

lemma appendKits_effect:
  assumes "appendKits R x y m k (sa, n, cid, rp) = Inr (sa', n', cid', rp')"
    and "m < n"
  shows "length sa' = length sa \<and> n' = n + k \<and> (n \<le> length sa \<longrightarrow> n' \<le> length sa) \<and> cid' = cid + int k
         \<and> (\<forall>j. (n \<le> j \<and> j < n' \<longrightarrow> isKitOf (stoat_id (sa ! m)) x y cid cid' (sa ! j) (sa' ! j))
               \<and> (\<not> (n \<le> j \<and> j < n') \<longrightarrow> sa' ! j = sa ! j))"
  using assms
proof (induction k arbitrary: sa n cid rp)
  case 0
  then show ?case by auto
next
  case (Suc k)
  let ?sa1 = "sa[n := newKit (sa ! n) x y (rnd_random R rp < 0.5) cid (stoat_id (sa ! m))]"
  from Suc.prems have nl: "n < length sa"
    by (auto split: if_splits)
  from Suc.prems nl have r: "appendKits R x y m k (?sa1, n + 1, cid + 1, rp + 1) = Inr (sa', n', cid', rp')"
    by (auto simp: Let_def split: if_splits)
  from Suc.prems(2) have m1: "?sa1 ! m = sa ! m" by simp
  from Suc.prems(2) have "m < n + 1" by simp
  from Suc.IH [OF r this] m1 nl
  have len: "length sa' = length sa" and n': "n' = n + 1 + k" and nle: "n' \<le> length sa"
    and c: "cid' = cid + 1 + int k"
    and kits: "\<And>j. n + 1 \<le> j \<and> j < n' \<Longrightarrow> isKitOf (stoat_id (sa ! m)) x y (cid + 1) cid' (?sa1 ! j) (sa' ! j)"
    and same: "\<And>j. \<not> (n + 1 \<le> j \<and> j < n') \<Longrightarrow> sa' ! j = ?sa1 ! j"
    by auto
  have a: "isKitOf (stoat_id (sa ! m)) x y cid cid' (sa ! j) (sa' ! j)" if "n \<le> j \<and> j < n'" for j
  proof (cases "j = n")
    case True
    then have "sa' ! j = ?sa1 ! n" using same [of j] by simp
    also have "\<dots> = newKit (sa ! n) x y (rnd_random R rp < 0.5) cid (stoat_id (sa ! m))"
      using nl by simp
    finally have "sa' ! j = newKit (sa ! j) x y (rnd_random R rp < 0.5) cid (stoat_id (sa ! m))"
      using True by simp
    moreover have "cid \<le> cid" "cid < cid'" using c by simp_all
    ultimately show ?thesis by (blast intro: isKitOfI)
  next
    case False
    with that have j: "n + 1 \<le> j \<and> j < n'" by simp
    from False have "?sa1 ! j = sa ! j" by simp
    with kits [OF j] show ?thesis by (auto intro: isKitOf_mono)
  qed
  have b: "sa' ! j = sa ! j" if "\<not> (n \<le> j \<and> j < n')" for j
  proof -
    from that n' have "\<not> (n + 1 \<le> j \<and> j < n')" "j \<noteq> n" by auto
    with same [of j] show ?thesis by simp
  qed
  from len n' nle c a b show ?case by auto
qed

lemma doBirth_effect:
  assumes "doBirth R sa n m lam cid rp = Inr (sa', n', cid', rp')"
    and "\<not> deleted (sa ! m)" and "m < n"
  shows "length sa' = length sa \<and> n \<le> n' \<and> (n \<le> length sa \<longrightarrow> n' \<le> length sa) \<and> cid \<le> cid'
         \<and> (\<forall>j. (\<not> (n \<le> j \<and> j < n') \<and> sameButPregnancy (sa ! j) (sa' ! j))
               \<or> (j < n' \<and> (deleted (sa ! j) \<or> n \<le> j)
                  \<and> isKitOf (stoat_id (sa ! m)) (xpos (sa ! m)) (ypos (sa ! m)) cid cid' (sa ! j) (sa' ! j)))"
proof -
  let ?x = "xpos (sa ! m)" and ?y = "ypos (sa ! m)"
  from assms(1) obtain nKits where "poisson1 R rp lam = Inr nKits"
    by (cases "poisson1 R rp lam") (auto simp: doBirth_def)
  obtain sa1 k1 cid1 rp1 where re: "reuseDeleted R ?x ?y m [0 ..< n] (sa, nKits, cid, rp + 1) = (sa1, k1, cid1, rp1)"
    by (cases "reuseDeleted R ?x ?y m [0 ..< n] (sa, nKits, cid, rp + 1)") auto
  from assms(1) \<open>poisson1 R rp lam = Inr nKits\<close> re
  obtain sa2 where ap: "appendKits R ?x ?y m k1 (sa1, n, cid1, rp1) = Inr (sa2, n', cid', rp')"
    and fin: "sa' = sa2[m := (sa2 ! m)\<lparr>pregnant := False, pregnant_day := -1\<rparr>]"
    by (cases "appendKits R ?x ?y m k1 (sa1, n, cid1, rp1)") (auto simp: doBirth_def Let_def)
  from reuseDeleted_effect [OF re assms(2)]
  have len1: "length sa1 = length sa" and c1: "cid \<le> cid1" and m1: "sa1 ! m = sa ! m"
    and r1: "\<And>j. sa1 ! j = sa ! j
                \<or> (j \<in> set [0 ..< n] \<and> j < length sa \<and> deleted (sa ! j)
                   \<and> isKitOf (stoat_id (sa ! m)) ?x ?y cid cid1 (sa ! j) (sa1 ! j))" by auto
  from appendKits_effect [OF ap assms(3)] m1
  have len2: "length sa2 = length sa1" and n': "n' = n + k1" and nle: "n \<le> length sa1 \<Longrightarrow> n' \<le> length sa1"
    and c2: "cid' = cid1 + int k1"
    and a2: "\<And>j. n \<le> j \<and> j < n' \<Longrightarrow> isKitOf (stoat_id (sa ! m)) ?x ?y cid1 cid' (sa1 ! j) (sa2 ! j)"
    and s2: "\<And>j. \<not> (n \<le> j \<and> j < n') \<Longrightarrow> sa2 ! j = sa1 ! j" by auto
  have cc: "cid1 \<le> cid'" using c2 by simp
  have main: "(\<not> (n \<le> j \<and> j < n') \<and> sameButPregnancy (sa ! j) (sa' ! j))
               \<or> (j < n' \<and> (deleted (sa ! j) \<or> n \<le> j)
                  \<and> isKitOf (stoat_id (sa ! m)) ?x ?y cid cid' (sa ! j) (sa' ! j))" for j
  proof (cases "n \<le> j \<and> j < n'")
    case True
    then have jm: "j \<noteq> m" using assms(3) by auto
    from r1 [of j] True have "sa1 ! j = sa ! j" by auto
    with a2 [OF True] have "isKitOf (stoat_id (sa ! m)) ?x ?y cid1 cid' (sa ! j) (sa2 ! j)" by simp
    then have "isKitOf (stoat_id (sa ! m)) ?x ?y cid cid' (sa ! j) (sa2 ! j)"
      using c1 by (rule isKitOf_mono)
    moreover have "sa' ! j = sa2 ! j" using fin jm by simp
    ultimately show ?thesis using True by simp
  next
    case False
    from s2 [OF False] have e2: "sa2 ! j = sa1 ! j" .
    from r1 [of j] show ?thesis
    proof
      assume e1: "sa1 ! j = sa ! j"
      have "sameButPregnancy (sa ! j) (sa' ! j)"
        using fin e1 e2 by (auto simp: nth_update_any sameButPregnancy_def)
      with False show ?thesis by simp
    next
      assume k: "j \<in> set [0 ..< n] \<and> j < length sa \<and> deleted (sa ! j)
                   \<and> isKitOf (stoat_id (sa ! m)) ?x ?y cid cid1 (sa ! j) (sa1 ! j)"
      then have jm: "j \<noteq> m" using assms(2) by auto
      then have "sa' ! j = sa1 ! j" using fin e2 by simp
      moreover from k cc have "isKitOf (stoat_id (sa ! m)) ?x ?y cid cid' (sa ! j) (sa1 ! j)"
        by (blast intro: isKitOf_mono_upper)
      moreover from k n' have "j < n'" by simp
      ultimately show ?thesis using k by simp
    qed
  qed
  have "length sa' = length sa" using fin len2 len1 by simp
  moreover have "n \<le> n'" using n' by simp
  moreover have "n \<le> length sa \<longrightarrow> n' \<le> length sa" using nle len1 by simp
  moreover have "cid \<le> cid'" using c1 cc by simp
  ultimately show ?thesis using main by blast
qed

lemma killStoat_effect:
  assumes "s < length (st_stoatArray st)"
  shows "st_nStoats (killStoat s st) = st_nStoats st"
    and "st_Current_Id (killStoat s st) = st_Current_Id st"
    and "st_inEstrous (killStoat s st) = st_inEstrous st"
    and "st_daysSincePheromoneRelease (killStoat s st) = st_daysSincePheromoneRelease st"
    and "st_matingArray (killStoat s st) = purgeMatings (stoat_id (st_stoatArray st ! s)) (st_matingArray st)"
    and "st_pheromoneInteractionArray (killStoat s st)
           = purgeInteractions (stoat_id (st_stoatArray st ! s)) (st_pheromoneInteractionArray st)"
    and "length (st_stoatArray (killStoat s st)) = length (st_stoatArray st)"
    and "st_stoatArray (killStoat s st) ! j =
           (if j = s \<or> (j < st_nStoats st \<and> j < length (st_stoatArray st)
                          \<and> parentid (st_stoatArray st ! j) = stoat_id (st_stoatArray st ! s))
            then (st_stoatArray st ! j)\<lparr>deleted := True\<rparr> else st_stoatArray st ! j)"
proof -
  let ?sa = "st_stoatArray st"
  let ?sa1 = "?sa[s := (?sa ! s)\<lparr>deleted := True\<rparr>]"
  let ?sa2 = "killChildren s [0 ..< st_nStoats st] ?sa1"
  have ke: "\<And>j. ?sa2 ! j = (if j \<in> set [0 ..< st_nStoats st] \<and> j < length ?sa1 \<and> parentid (?sa1 ! j) = stoat_id (?sa1 ! s)
            then (?sa1 ! j)\<lparr>deleted := True\<rparr> else ?sa1 ! j)" and kl: "length ?sa2 = length ?sa1"
    using killChildren_effect [of s "[0 ..< st_nStoats st]" ?sa1] by auto
  have p1: "\<And>j. parentid (?sa1 ! j) = parentid (?sa ! j)" by (simp add: nth_update_any)
  have i1: "stoat_id (?sa1 ! s) = stoat_id (?sa ! s)" by (simp add: nth_update_any)
  have s2: "stoat_id (?sa2 ! s) = stoat_id (?sa ! s)"
    unfolding ke using assms by (simp add: nth_update_any)
  show "st_nStoats (killStoat s st) = st_nStoats st" "st_Current_Id (killStoat s st) = st_Current_Id st"
    "st_inEstrous (killStoat s st) = st_inEstrous st"
    "st_daysSincePheromoneRelease (killStoat s st) = st_daysSincePheromoneRelease st"
    by (simp_all add: killStoat_def Let_def)
  show "st_matingArray (killStoat s st) = purgeMatings (stoat_id (?sa ! s)) (st_matingArray st)"
    using s2 by (simp add: killStoat_def Let_def)
  show "st_pheromoneInteractionArray (killStoat s st)
           = purgeInteractions (stoat_id (?sa ! s)) (st_pheromoneInteractionArray st)"
    using s2 by (simp add: killStoat_def Let_def)
  show "length (st_stoatArray (killStoat s st)) = length ?sa"
    using kl by (simp add: killStoat_def Let_def)
  have "?sa2 ! j = (if j = s \<or> (j < st_nStoats st \<and> j < length ?sa \<and> parentid (?sa ! j) = stoat_id (?sa ! s))
            then (?sa ! j)\<lparr>deleted := True\<rparr> else ?sa ! j)"
    unfolding ke p1 i1 using assms by (auto simp: nth_update_any)
  then show "st_stoatArray (killStoat s st) ! j =
           (if j = s \<or> (j < st_nStoats st \<and> j < length ?sa \<and> parentid (?sa ! j) = stoat_id (?sa ! s))
            then (?sa ! j)\<lparr>deleted := True\<rparr> else ?sa ! j)"
    by (simp add: killStoat_def Let_def)
qed

lemma createRandomLocationOnIsland_onLand:
  "createRandomLocationOnIsland R fuel maskA tlx tly brx bry pixsize rp = Inr (x, y, rp')
   \<Longrightarrow> checkLocationIsOnIsland maskA tlx tly brx bry pixsize x y = Inr True"
proof (induction fuel arbitrary: rp)
  case 0
  then show ?case by simp
next
  case (Suc fuel)
  then show ?case
    by (auto simp: Let_def split: sum.splits if_splits)
qed

lemma moveRound_effect:
  "moveRound P R s x y cx cy mr hb sa rp = (sa1, nx, ny) \<Longrightarrow>
   \<exists>b. sa1 = sa[s := (sa ! s)\<lparr>bearingT_1 := b\<rparr>]"
  by (auto simp: moveRound_def Let_def)

lemma moveLoop_effect:
  "moveLoop P R fuel s x y cx cy mr hb sa rp = Inr (sa', rp') \<Longrightarrow>
   \<exists>b nx ny. onLand P nx ny = Inr True
     \<and> sa' = sa[s := (sa ! s)\<lparr>bearingT_1 := b, xpos := nx, ypos := ny\<rparr>]"
proof (induction fuel arbitrary: sa rp)
  case 0
  then show ?case by simp
next
  case (Suc fuel)
  obtain sa1 nx ny where mr: "moveRound P R s x y cx cy mr hb sa rp = (sa1, nx, ny)"
    by (cases "moveRound P R s x y cx cy mr hb sa rp") auto
  from moveRound_effect [OF mr] obtain b1 where sa1: "sa1 = sa[s := (sa ! s)\<lparr>bearingT_1 := b1\<rparr>]" by blast
  from Suc.prems mr obtain ok where ok: "onLand P nx ny = Inr ok"
    by (cases "onLand P nx ny") auto
  show ?case
  proof (cases ok)
    case True
    with Suc.prems mr ok have "sa' = sa1[s := (sa1 ! s)\<lparr>xpos := nx, ypos := ny\<rparr>]" by simp
    with sa1 have "sa' = sa[s := (sa ! s)\<lparr>bearingT_1 := b1, xpos := nx, ypos := ny\<rparr>]"
      by (cases "s < length sa") (simp_all add: list_update_beyond)
    then have "sa' = sa[s := (sa ! s)\<lparr>bearingT_1 := b1, xpos := nx, ypos := ny\<rparr>]" .
    moreover from ok True have "onLand P nx ny = Inr True" by simp
    ultimately show ?thesis by blast
  next
    case False
    with Suc.prems mr ok have "moveLoop P R fuel s x y cx cy mr hb sa1 (rp + 3) = Inr (sa', rp')" by simp
    from Suc.IH [OF this] obtain b nx' ny' where l: "onLand P nx' ny' = Inr True"
      and e: "sa' = sa1[s := (sa1 ! s)\<lparr>bearingT_1 := b, xpos := nx', ypos := ny'\<rparr>]" by blast
    from e sa1 have "sa' = sa[s := (sa ! s)\<lparr>bearingT_1 := b, xpos := nx', ypos := ny'\<rparr>]"
      by (cases "s < length sa") (simp_all add: list_update_beyond)
    with l show ?thesis by blast
  qed
qed

lemma moveStoat_effect:
  assumes "moveStoat P R fuel s x y hx hy hb st = Inr st'"
  shows "\<exists>b nx ny rp'. onLand P nx ny = Inr True
     \<and> st' = st\<lparr>st_stoatArray := (st_stoatArray st)[s := (st_stoatArray st ! s)\<lparr>bearingT_1 := b, xpos := nx, ypos := ny\<rparr>],
                st_rpos := rp'\<rparr>"
proof -
  from assms obtain mr rp where "(if \<not> hb then
              checkForEstrousMatesAndDecoysInRadius R (\<not> male (st_stoatArray st ! s)) x y
                (st_stoatArray st) (st_nStoats st) (stoat_id (st_stoatArray st ! s)) (p_COA_radius P)
                (p_COA_decay_spatial P) (p_COA_decay_temporal P) (p_minK P)
                (st_daysSincePheromoneRelease st) (p_pheromoneArray P)
                (st_pheromoneInteractionArray st) (st_matingArray st) (st_rpos st)
            else Inr (None, st_rpos st)) = Inr (mr, rp)"
    unfolding moveStoat_def by (auto split: sum.splits)
  with assms obtain cx cy sa' rp' where ml: "moveLoop P R fuel s x y cx cy mr hb (st_stoatArray st) rp = Inr (sa', rp')"
    and st': "st' = st\<lparr>st_stoatArray := sa', st_rpos := rp'\<rparr>"
    unfolding moveStoat_def by (auto simp: Let_def split: sum.splits)
  from moveLoop_effect [OF ml] st' show ?thesis by blast
qed

section \<open>The turn of one stoat, and dispersal\<close>

lemma processStoat_cases:
  assumes "processStoat P R fuel day hour s st = Inr st'"
  shows "\<exists>mated st2 st3 killed rp.
     matingOrBirth P R day hour s (xpos (st_stoatArray st ! s)) (ypos (st_stoatArray st ! s))
        (st\<lparr>st_stoatArray := (st_stoatArray st)[s := (st_stoatArray st ! s)
             \<lparr>homerange := homerangeBehaviourOf (st_inEstrous st) (st_stoatArray st) (st_nStoats st) s\<rparr>]\<rparr>)
        = Inr (mated, st2)
     \<and> pheromonePhase P s (xpos (st_stoatArray st ! s)) (ypos (st_stoatArray st ! s)) mated st2 = Inr st3
     \<and> killDecision P R day hour (xpos (st_stoatArray st ! s)) (ypos (st_stoatArray st ! s)) (st_rpos st3)
          = Inr (killed, rp)
     \<and> ((killed \<and> st' = killStoat s (st3\<lparr>st_rpos := rp\<rparr>))
        \<or> (\<not> killed \<and> parentid (st_stoatArray st3 ! s) \<noteq> -1 \<and> st' = st3\<lparr>st_rpos := rp\<rparr>)
        \<or> (\<not> killed \<and> parentid (st_stoatArray st3 ! s) = -1
           \<and> moveStoat P R fuel s (xpos (st_stoatArray st ! s)) (ypos (st_stoatArray st ! s))
                (home_x (st_stoatArray st ! s)) (home_y (st_stoatArray st ! s))
                (homerangeBehaviourOf (st_inEstrous st) (st_stoatArray st) (st_nStoats st) s)
                (st3\<lparr>st_rpos := rp\<rparr>) = Inr st'))"
  using assms unfolding processStoat_def Let_def
  by (auto split: sum.splits prod.splits if_splits)

lemma matingOrBirth_cases:
  assumes "matingOrBirth P R day hour s x y st = Inr (mated, st2)"
  shows "(\<not> mated \<and> st2 = st)
     \<or> (male (st_stoatArray st ! s) \<and> st_inEstrous st \<and> parentid (st_stoatArray st ! s) = -1
        \<and> (\<exists>sa' ma' rp'.
             doMaleMating R x y (stoat_id (st_stoatArray st ! s)) (st_stoatArray st) (st_nStoats st)
                (p_encounterDistance P) (st_matingArray st) (p_habituationDays P) (int day)
                (p_probPregnacy P) (st_rpos st) = Inr (mated, sa', ma', rp')
             \<and> st2 = st\<lparr>st_stoatArray := sa', st_matingArray := ma', st_rpos := rp'\<rparr>))
     \<or> (\<not> mated \<and> \<not> male (st_stoatArray st ! s) \<and> birthDue P day hour (st_stoatArray st ! s)
        \<and> (\<exists>sa' n' cid' rp'.
             doBirth R (st_stoatArray st) (st_nStoats st) s (p_meanRecruits P) (st_Current_Id st)
                (st_rpos st) = Inr (sa', n', cid', rp')
             \<and> st2 = st\<lparr>st_stoatArray := sa', st_nStoats := n', st_Current_Id := cid', st_rpos := rp'\<rparr>))"
  using assms unfolding matingOrBirth_def Let_def
  by (auto split: sum.splits prod.splits if_splits)

lemma pheromonePhase_effect:
  "pheromonePhase P s x y mated st = Inr st' \<Longrightarrow>
   \<exists>pia'. st' = st\<lparr>st_pheromoneInteractionArray := pia'\<rparr>"
proof -
  assume a: "pheromonePhase P s x y mated st = Inr st'"
  show ?thesis
  proof (cases mated)
    case True
    with a have "st' = st\<lparr>st_pheromoneInteractionArray := st_pheromoneInteractionArray st\<rparr>"
      by (simp add: pheromonePhase_def)
    then show ?thesis by blast
  next
    case False
    with a show ?thesis
      by (auto simp: pheromonePhase_def split: sum.splits)
  qed
qed

lemma killDecision_last_hour:
  assumes "killDecision P R day hour x y rp = Inr (killed, rp')"
    and "p_pDaySurv P = 0" and "int hour = p_hoursPerDay P - 1"
  shows killed
  using assms unfolding killDecision_def binomial1_def
  by (auto split: sum.splits prod.splits if_splits)

lemma dispersalRel_refl [simp]: "dispersalRel P a a"
  by (simp add: dispersalRel_def)

lemma dispersalRel_trans: "dispersalRel P a b \<Longrightarrow> dispersalRel P b c \<Longrightarrow> dispersalRel P a c"
  unfolding dispersalRel_def by auto

lemma disperseOne_effect:
  assumes "disperseOne P R fuel i sa rp = Inr (sa', rp')"
  shows "length sa' = length sa \<and> (\<forall>j. dispersalRel P (sa ! j) (sa' ! j))
     \<and> (i < length sa \<longrightarrow> parentid (sa' ! i) = -1)
     \<and> (i < length sa \<and> \<not> deleted (sa ! i) \<and> (parentid (sa ! i) \<noteq> -1 \<or> male (sa ! i))
         \<longrightarrow> (\<exists>k. bearingT_1 (sa' ! i) = rnd_uniform R k (- pi) pi)
             \<and> onLand P (xpos (sa' ! i)) (ypos (sa' ! i)) = Inr True)"
proof (cases "\<not> deleted (sa ! i) \<and> (parentid (sa ! i) \<noteq> -1 \<or> male (sa ! i))")
  case False
  with assms have "sa' = sa[i := (sa ! i)\<lparr>parentid := -1\<rparr>]"
    by (auto simp: disperseOne_def)
  then show ?thesis using False by (auto simp: nth_update_any dispersalRel_def)
next
  case True
  with assms obtain x y rp1 where loc: "createRandomLocationOnIsland R fuel (p_mask P) (p_tlx P) (p_tly P) (p_brx P) (p_bry P)
                (p_pixSize P) rp = Inr (x, y, rp1)"
    and sa': "sa' = sa[i := (sa ! i)\<lparr>xpos := x, ypos := y, home_x := x, home_y := y,
                                    bearingT_1 := rnd_uniform R rp1 (- pi) pi, parentid := -1\<rparr>]"
    by (auto simp: disperseOne_def split: sum.splits)
  from createRandomLocationOnIsland_onLand [OF loc] have ol: "onLand P x y = Inr True"
    by (simp add: onLand_def)
  have "\<forall>j. dispersalRel P (sa ! j) (sa' ! j)"
    using sa' ol by (auto simp: nth_update_any dispersalRel_def)
  moreover have "i < length sa \<longrightarrow> (\<exists>k. bearingT_1 (sa' ! i) = rnd_uniform R k (- pi) pi)"
    using sa' by auto
  moreover have "i < length sa \<longrightarrow> parentid (sa' ! i) = -1 \<and> onLand P (xpos (sa' ! i)) (ypos (sa' ! i)) = Inr True"
    using sa' ol by auto
  moreover have "length sa' = length sa" using sa' by simp
  ultimately show ?thesis by blast
qed

lemma disperse_effect:
  "disperse P R fuel js sa rp = Inr (sa', rp') \<Longrightarrow>
   length sa' = length sa \<and> (\<forall>j. dispersalRel P (sa ! j) (sa' ! j))
   \<and> (\<forall>j\<in>set js. j < length sa \<longrightarrow> parentid (sa' ! j) = -1)"
proof (induction js arbitrary: sa rp)
  case Nil
  then show ?case by simp
next
  case (Cons i js)
  from Cons.prems obtain sa1 rp1 where one: "disperseOne P R fuel i sa rp = Inr (sa1, rp1)"
    and rest: "disperse P R fuel js sa1 rp1 = Inr (sa', rp')"
    by (auto split: sum.splits)
  from disperseOne_effect [OF one] have l1: "length sa1 = length sa"
    and r1: "\<forall>j. dispersalRel P (sa ! j) (sa1 ! j)" and p1: "i < length sa \<longrightarrow> parentid (sa1 ! i) = -1"
    by auto
  from Cons.IH [OF rest] have l2: "length sa' = length sa1"
    and r2: "\<forall>j. dispersalRel P (sa1 ! j) (sa' ! j)"
    and p2: "\<forall>j\<in>set js. j < length sa1 \<longrightarrow> parentid (sa' ! j) = -1" by auto
  have r: "\<forall>j. dispersalRel P (sa ! j) (sa' ! j)"
    using r1 r2 by (blast intro: dispersalRel_trans)
  have "i < length sa \<longrightarrow> parentid (sa' ! i) = -1"
    using p1 r2 unfolding dispersalRel_def by metis
  with p2 l1 l2 r show ?case by auto
qed

lemma disperse_allDeleted:
  "\<forall>i\<in>set js. deleted (sa ! i) \<Longrightarrow>
   \<exists>sa'. disperse P R fuel js sa rp = Inr (sa', rp) \<and> length sa' = length sa
        \<and> (\<forall>j. deleted (sa' ! j) = deleted (sa ! j))"
proof (induction js arbitrary: sa)
  case Nil
  then show ?case by simp
next
  case (Cons i js)
  let ?sa1 = "sa[i := (sa ! i)\<lparr>parentid := -1\<rparr>]"
  have one: "disperseOne P R fuel i sa rp = Inr (?sa1, rp)"
    using Cons.prems by (simp add: disperseOne_def)
  have d1: "\<And>j. deleted (?sa1 ! j) = deleted (sa ! j)" by (simp add: nth_update_any)
  with Cons.prems have "\<forall>i\<in>set js. deleted (?sa1 ! i)" by simp
  from Cons.IH [OF this] obtain sa' where "disperse P R fuel js ?sa1 rp = Inr (sa', rp)"
    "length sa' = length ?sa1" "\<forall>j. deleted (sa' ! j) = deleted (?sa1 ! j)" by blast
  with one d1 show ?case by simp
qed

lemma sameCore_refl [simp]: "sameCore a a"
  by (simp add: sameCore_def)

lemma sameCore_homerange [simp]: "sameCore a (a\<lparr>homerange := h\<rparr>)"
  by (simp add: sameCore_def)

lemma sameCore_trans: "sameCore a b \<Longrightarrow> sameCore b c \<Longrightarrow> sameCore a c"
  by (cases a, cases b, cases c) (simp add: sameCore_def)

lemma sameButPregnancy_sameCore: "sameButPregnancy a b \<Longrightarrow> sameCore a b"
  by (cases a, cases b) (simp add: sameCore_def sameButPregnancy_def)

lemma sameCore_fields:
  assumes "sameCore a b"
  shows "deleted b = deleted a" "male b = male a" "xpos b = xpos a" "ypos b = ypos a"
    "home_x b = home_x a" "home_y b = home_y a" "stoat_id b = stoat_id a"
    "parentid b = parentid a" "bearingT_1 b = bearingT_1 a"
  using assms by (cases a, cases b, simp add: sameCore_def)+

lemma isKitOf_kitIn:
  assumes "isKitOf (stoat_id m1) (xpos m1) (ypos m1) cid cid' old1 new"
    and "sameCore m0 m1" and "sameCore old0 old1"
  shows "kitIn m0 cid cid' old0 new"
proof -
  from assms(1) obtain b c where c: "cid \<le> c" "c < cid'"
    and n: "new = newKit old1 (xpos m1) (ypos m1) b c (stoat_id m1)"
    unfolding isKitOf_def by blast
  have "\<not> deleted new \<and> parentid new = stoat_id m0 \<and> xpos new = xpos m0 \<and> ypos new = ypos m0
        \<and> bearingT_1 new = bearingT_1 old0 \<and> stoat_id new = int32 c"
    using n sameCore_fields [OF assms(2)] sameCore_fields [OF assms(3)]
    by (simp add: newKit_def)
  with c show ?thesis unfolding kitIn_def by blast
qed

text \<open>The state of the arrays when the stoat's turn reaches the kill decision.\<close>

lemma processStoat_prefix:
  assumes ps: "processStoat P R fuel day hour s st = Inr st'"
    and s: "s < st_nStoats st" and live: "\<not> deleted (st_stoatArray st ! s)"
  shows "\<exists>st3 killed.
     length (st_stoatArray st3) = length (st_stoatArray st)
     \<and> st_nStoats st \<le> st_nStoats st3
     \<and> (st_nStoats st \<le> length (st_stoatArray st) \<longrightarrow> st_nStoats st3 \<le> length (st_stoatArray st))
     \<and> st_Current_Id st \<le> st_Current_Id st3
     \<and> (\<forall>j. (\<not> (st_nStoats st \<le> j \<and> j < st_nStoats st3)
                \<and> sameCore (st_stoatArray st ! j) (st_stoatArray st3 ! j))
            \<or> (j < st_nStoats st3 \<and> (deleted (st_stoatArray st ! j) \<or> st_nStoats st \<le> j)
               \<and> kitIn (st_stoatArray st ! s) (st_Current_Id st) (st_Current_Id st3)
                    (st_stoatArray st ! j) (st_stoatArray st3 ! j)))
     \<and> (p_pDaySurv P = 0 \<and> int hour = p_hoursPerDay P - 1 \<longrightarrow> killed)
     \<and> ((killed \<and> st' = killStoat s st3)
        \<or> (\<not> killed \<and> parentid (st_stoatArray st3 ! s) \<noteq> -1 \<and> (\<exists>rp. st' = st3\<lparr>st_rpos := rp\<rparr>))
        \<or> (\<not> killed \<and> parentid (st_stoatArray st3 ! s) = -1
           \<and> (\<exists>b nx ny rp. onLand P nx ny = Inr True
                \<and> st' = st3\<lparr>st_stoatArray := (st_stoatArray st3)[s := (st_stoatArray st3 ! s)
                                 \<lparr>bearingT_1 := b, xpos := nx, ypos := ny\<rparr>],
                             st_rpos := rp\<rparr>)))"
proof -
  let ?sa = "st_stoatArray st"
  let ?x = "xpos (?sa ! s)" and ?y = "ypos (?sa ! s)"
  let ?hb = "homerangeBehaviourOf (st_inEstrous st) ?sa (st_nStoats st) s"
  let ?sa1 = "?sa[s := (?sa ! s)\<lparr>homerange := ?hb\<rparr>]"
  let ?st1 = "st\<lparr>st_stoatArray := ?sa1\<rparr>"
  from processStoat_cases [OF ps] obtain mated st2 st3 killed rp where
    mob: "matingOrBirth P R day hour s ?x ?y ?st1 = Inr (mated, st2)"
    and ph: "pheromonePhase P s ?x ?y mated st2 = Inr st3"
    and kd: "killDecision P R day hour ?x ?y (st_rpos st3) = Inr (killed, rp)"
    and fin: "(killed \<and> st' = killStoat s (st3\<lparr>st_rpos := rp\<rparr>))
        \<or> (\<not> killed \<and> parentid (st_stoatArray st3 ! s) \<noteq> -1 \<and> st' = st3\<lparr>st_rpos := rp\<rparr>)
        \<or> (\<not> killed \<and> parentid (st_stoatArray st3 ! s) = -1
           \<and> moveStoat P R fuel s ?x ?y (home_x (?sa ! s)) (home_y (?sa ! s)) ?hb
                (st3\<lparr>st_rpos := rp\<rparr>) = Inr st')"
    by blast
  have c01: "\<And>j. sameCore (?sa ! j) (?sa1 ! j)" by (simp add: nth_update_any)
  have live1: "\<not> deleted (?sa1 ! s)" using live sameCore_fields(1) [OF c01 [of s]] by simp
  have l1: "length ?sa1 = length ?sa" by simp
  \<comment> \<open>the arrays after the mating or the birth\<close>
  have A: "length (st_stoatArray st2) = length ?sa \<and> st_nStoats st \<le> st_nStoats st2
     \<and> (st_nStoats st \<le> length ?sa \<longrightarrow> st_nStoats st2 \<le> length ?sa)
     \<and> st_Current_Id st \<le> st_Current_Id st2
     \<and> (\<forall>j. (\<not> (st_nStoats st \<le> j \<and> j < st_nStoats st2) \<and> sameCore (?sa ! j) (st_stoatArray st2 ! j))
            \<or> (j < st_nStoats st2 \<and> (deleted (?sa ! j) \<or> st_nStoats st \<le> j)
               \<and> kitIn (?sa ! s) (st_Current_Id st) (st_Current_Id st2) (?sa ! j) (st_stoatArray st2 ! j)))"
    using matingOrBirth_cases [OF mob]
  proof (elim disjE conjE exE)
    assume "st2 = ?st1"
    then show ?thesis using c01 by simp
  next
    fix sa' ma' rp'
    assume dm: "doMaleMating R ?x ?y (stoat_id (st_stoatArray ?st1 ! s)) (st_stoatArray ?st1) (st_nStoats ?st1)
                (p_encounterDistance P) (st_matingArray ?st1) (p_habituationDays P) (int day)
                (p_probPregnacy P) (st_rpos ?st1) = Inr (mated, sa', ma', rp')"
      and st2: "st2 = ?st1\<lparr>st_stoatArray := sa', st_matingArray := ma', st_rpos := rp'\<rparr>"
    from doMaleMating_effect [OF dm] have len: "length sa' = length ?sa1"
      and fr: "\<And>j. sameButPregnancy (?sa1 ! j) (sa' ! j)" by auto
    have "\<And>j. sameCore (?sa ! j) (sa' ! j)"
      using c01 fr by (blast intro: sameCore_trans sameButPregnancy_sameCore)
    with len st2 show ?thesis by simp
  next
    fix sa' n' cid' rp'
    assume db: "doBirth R (st_stoatArray ?st1) (st_nStoats ?st1) s (p_meanRecruits P) (st_Current_Id ?st1)
                (st_rpos ?st1) = Inr (sa', n', cid', rp')"
      and st2: "st2 = ?st1\<lparr>st_stoatArray := sa', st_nStoats := n', st_Current_Id := cid', st_rpos := rp'\<rparr>"
    from db have db': "doBirth R ?sa1 (st_nStoats st) s (p_meanRecruits P) (st_Current_Id st)
                (st_rpos st) = Inr (sa', n', cid', rp')" by simp
    from doBirth_effect [OF db' live1 s] l1
    have len: "length sa' = length ?sa" and n: "st_nStoats st \<le> n'"
      and nl: "st_nStoats st \<le> length ?sa \<longrightarrow> n' \<le> length ?sa"
      and c: "st_Current_Id st \<le> cid'"
      and all: "\<And>j. (\<not> (st_nStoats st \<le> j \<and> j < n') \<and> sameButPregnancy (?sa1 ! j) (sa' ! j))
               \<or> (j < n' \<and> (deleted (?sa1 ! j) \<or> st_nStoats st \<le> j)
                  \<and> isKitOf (stoat_id (?sa1 ! s)) (xpos (?sa1 ! s)) (ypos (?sa1 ! s))
                       (st_Current_Id st) cid' (?sa1 ! j) (sa' ! j))"
      by auto
    have "(\<not> (st_nStoats st \<le> j \<and> j < n') \<and> sameCore (?sa ! j) (sa' ! j))
            \<or> (j < n' \<and> (deleted (?sa ! j) \<or> st_nStoats st \<le> j)
               \<and> kitIn (?sa ! s) (st_Current_Id st) cid' (?sa ! j) (sa' ! j))" for j
      using all [of j]
    proof
      assume "\<not> (st_nStoats st \<le> j \<and> j < n') \<and> sameButPregnancy (?sa1 ! j) (sa' ! j)"
      then show ?thesis
        using c01 [of j] by (blast intro: sameCore_trans sameButPregnancy_sameCore)
    next
      assume k: "j < n' \<and> (deleted (?sa1 ! j) \<or> st_nStoats st \<le> j)
                  \<and> isKitOf (stoat_id (?sa1 ! s)) (xpos (?sa1 ! s)) (ypos (?sa1 ! s))
                       (st_Current_Id st) cid' (?sa1 ! j) (sa' ! j)"
      then have "kitIn (?sa ! s) (st_Current_Id st) cid' (?sa ! j) (sa' ! j)"
        using isKitOf_kitIn [OF _ c01 [of s] c01 [of j]] by blast
      moreover have "deleted (?sa1 ! j) = deleted (?sa ! j)"
        using sameCore_fields(1) [OF c01 [of j]] .
      ultimately show ?thesis using k by simp
    qed
    with len n nl c st2 show ?thesis by simp
  qed
  from pheromonePhase_effect [OF ph] obtain pia' where st3: "st3 = st2\<lparr>st_pheromoneInteractionArray := pia'\<rparr>"
    by blast
  let ?st3r = "st3\<lparr>st_rpos := rp\<rparr>"
  have B: "st_stoatArray ?st3r = st_stoatArray st2" "st_nStoats ?st3r = st_nStoats st2"
    "st_Current_Id ?st3r = st_Current_Id st2" "st_stoatArray st3 = st_stoatArray st2"
    using st3 by simp_all
  have K: "p_pDaySurv P = 0 \<and> int hour = p_hoursPerDay P - 1 \<longrightarrow> killed"
    using killDecision_last_hour [OF kd] by blast
  have F: "(killed \<and> st' = killStoat s ?st3r)
        \<or> (\<not> killed \<and> parentid (st_stoatArray ?st3r ! s) \<noteq> -1 \<and> (\<exists>rp'. st' = ?st3r\<lparr>st_rpos := rp'\<rparr>))
        \<or> (\<not> killed \<and> parentid (st_stoatArray ?st3r ! s) = -1
           \<and> (\<exists>b nx ny rp'. onLand P nx ny = Inr True
                \<and> st' = ?st3r\<lparr>st_stoatArray := (st_stoatArray ?st3r)[s := (st_stoatArray ?st3r ! s)
                                 \<lparr>bearingT_1 := b, xpos := nx, ypos := ny\<rparr>],
                             st_rpos := rp'\<rparr>))"
    using fin
  proof (elim disjE conjE)
    assume "killed" "st' = killStoat s ?st3r"
    then show ?thesis by simp
  next
    assume "\<not> killed" "parentid (st_stoatArray st3 ! s) \<noteq> -1" "st' = ?st3r"
    then have "st' = ?st3r\<lparr>st_rpos := rp\<rparr>" by simp
    with \<open>\<not> killed\<close> \<open>parentid (st_stoatArray st3 ! s) \<noteq> -1\<close> show ?thesis by auto
  next
    assume nk: "\<not> killed" and pp: "parentid (st_stoatArray st3 ! s) = -1"
      and mv: "moveStoat P R fuel s ?x ?y (home_x (?sa ! s)) (home_y (?sa ! s)) ?hb ?st3r = Inr st'"
    from moveStoat_effect [OF mv] nk pp show ?thesis by auto
  qed
  show ?thesis
    apply (rule exI [of _ ?st3r], rule exI [of _ killed])
    using A K F unfolding B by blast
qed

section \<open>Mortality with a daily survival of zero\<close>

lemma processStoat_prefixE:
  assumes ps: "processStoat P R fuel day hour s st = Inr st'"
    and s: "s < st_nStoats st" and live: "\<not> deleted (st_stoatArray st ! s)"
  obtains st3 killed where
    "length (st_stoatArray st3) = length (st_stoatArray st)"
    "st_nStoats st \<le> st_nStoats st3"
    "st_nStoats st \<le> length (st_stoatArray st) \<longrightarrow> st_nStoats st3 \<le> length (st_stoatArray st)"
    "st_Current_Id st \<le> st_Current_Id st3"
    "\<forall>j. (\<not> (st_nStoats st \<le> j \<and> j < st_nStoats st3)
                \<and> sameCore (st_stoatArray st ! j) (st_stoatArray st3 ! j))
            \<or> (j < st_nStoats st3 \<and> (deleted (st_stoatArray st ! j) \<or> st_nStoats st \<le> j)
               \<and> kitIn (st_stoatArray st ! s) (st_Current_Id st) (st_Current_Id st3)
                    (st_stoatArray st ! j) (st_stoatArray st3 ! j))"
    "p_pDaySurv P = 0 \<and> int hour = p_hoursPerDay P - 1 \<longrightarrow> killed"
    "(killed \<and> st' = killStoat s st3)
        \<or> (\<not> killed \<and> parentid (st_stoatArray st3 ! s) \<noteq> -1 \<and> (\<exists>rp. st' = st3\<lparr>st_rpos := rp\<rparr>))
        \<or> (\<not> killed \<and> parentid (st_stoatArray st3 ! s) = -1
           \<and> (\<exists>b nx ny rp. onLand P nx ny = Inr True
                \<and> st' = st3\<lparr>st_stoatArray := (st_stoatArray st3)[s := (st_stoatArray st3 ! s)
                                 \<lparr>bearingT_1 := b, xpos := nx, ypos := ny\<rparr>],
                             st_rpos := rp\<rparr>))"
  using processStoat_prefix [OF assms] by (elim exE conjE) (rule that; assumption)

lemma processStoat_wf:
  assumes ps: "processStoat P R fuel day hour s st = Inr st'"
    and s: "s < st_nStoats st" and live: "\<not> deleted (st_stoatArray st ! s)" and wf: "wfState st"
  shows "wfState st' \<and> st_nStoats st \<le> st_nStoats st'
         \<and> length (st_stoatArray st') = length (st_stoatArray st)
         \<and> st_Current_Id st \<le> st_Current_Id st'"
proof -
  from ps s live obtain st3 killed where
    len: "length (st_stoatArray st3) = length (st_stoatArray st)"
    and n: "st_nStoats st \<le> st_nStoats st3"
    and nl: "st_nStoats st \<le> length (st_stoatArray st) \<longrightarrow> st_nStoats st3 \<le> length (st_stoatArray st)"
    and c: "st_Current_Id st \<le> st_Current_Id st3"
    and fin: "(killed \<and> st' = killStoat s st3)
        \<or> (\<not> killed \<and> parentid (st_stoatArray st3 ! s) \<noteq> -1 \<and> (\<exists>rp. st' = st3\<lparr>st_rpos := rp\<rparr>))
        \<or> (\<not> killed \<and> parentid (st_stoatArray st3 ! s) = -1
           \<and> (\<exists>b nx ny rp. onLand P nx ny = Inr True
                \<and> st' = st3\<lparr>st_stoatArray := (st_stoatArray st3)[s := (st_stoatArray st3 ! s)
                                 \<lparr>bearingT_1 := b, xpos := nx, ypos := ny\<rparr>],
                             st_rpos := rp\<rparr>))"
    by (rule processStoat_prefixE)
  from wf nl have n3: "st_nStoats st3 \<le> length (st_stoatArray st)" by (simp add: wfState_def)
  from s wf len have sl: "s < length (st_stoatArray st3)" by (simp add: wfState_def)
  from fin show ?thesis
  proof (elim disjE conjE exE)
    assume "st' = killStoat s st3"
    then show ?thesis
      using killStoat_effect(1,2,7) [OF sl] len n n3 c by (simp add: wfState_def)
  next
    fix rp assume "st' = st3\<lparr>st_rpos := rp\<rparr>"
    then show ?thesis using len n n3 c by (simp add: wfState_def)
  next
    fix b nx ny rp
    assume "st' = st3\<lparr>st_stoatArray := (st_stoatArray st3)[s := (st_stoatArray st3 ! s)
                                 \<lparr>bearingT_1 := b, xpos := nx, ypos := ny\<rparr>], st_rpos := rp\<rparr>"
    then show ?thesis using len n n3 c by (simp add: wfState_def)
  qed
qed




lemma stoatLoop_allDeleted:
  "\<forall>i\<in>set js. deleted (st_stoatArray st ! i) \<Longrightarrow> stoatLoop P R fuel day hour js er st = Inr (er, st)"
  by (induction js) auto



lemma runHour_allDeleted:
  assumes "allDeleted st"
  shows "runHour P R fuel day hour st = Inr (True, st)"
  unfolding runHour_def using assms
  by (intro stoatLoop_allDeleted) (simp add: allDeleted_def)


lemma startOfDay_wf:
  assumes "startOfDay P R fuel day st = Inr st'" and "wfState st"
  shows "wfState st'"
proof (cases "inArray (int day) (Some (p_dispersalDays P))")
  case False
  with assms show ?thesis
    by (auto simp: startOfDay_def Let_def wfState_def split: if_splits)
next
  case True
  let ?st1 = "(if inArray (int day) (Some (p_pheromoneReleaseDays P))
                 then st\<lparr>st_daysSincePheromoneRelease := 0\<rparr> else st)"
  let ?st2 = "(if inArray (int day) (Some (p_estrousStartDays P)) then ?st1\<lparr>st_inEstrous := True\<rparr>
                 else if inArray (int day) (Some (p_estrousEndDays P)) then ?st1\<lparr>st_inEstrous := False\<rparr>
                 else ?st1)"
  have e: "st_stoatArray ?st2 = st_stoatArray st" "st_nStoats ?st2 = st_nStoats st" by simp_all
  from assms(1) True obtain sa' rp' where
    d: "disperse P R fuel [0 ..< st_nStoats ?st2] (st_stoatArray ?st2) (st_rpos ?st2) = Inr (sa', rp')"
    and st': "st' = ?st2\<lparr>st_stoatArray := sa', st_rpos := rp'\<rparr>"
    unfolding startOfDay_def Let_def by (auto split: sum.splits)
  from disperse_effect [OF d] have "length sa' = length (st_stoatArray st)" using e by simp
  with st' assms(2) e show ?thesis by (simp add: wfState_def)
qed

lemma startOfDay_allDeleted:
  assumes "allDeleted st"
  shows "\<exists>st'. startOfDay P R fuel day st = Inr st' \<and> allDeleted st' \<and> st_nStoats st' = st_nStoats st"
proof -
  let ?st1 = "(if inArray (int day) (Some (p_pheromoneReleaseDays P))
                 then st\<lparr>st_daysSincePheromoneRelease := 0\<rparr> else st)"
  let ?st2 = "(if inArray (int day) (Some (p_estrousStartDays P)) then ?st1\<lparr>st_inEstrous := True\<rparr>
                 else if inArray (int day) (Some (p_estrousEndDays P)) then ?st1\<lparr>st_inEstrous := False\<rparr>
                 else ?st1)"
  have e: "st_stoatArray ?st2 = st_stoatArray st" "st_nStoats ?st2 = st_nStoats st" by simp_all
  have a2: "allDeleted ?st2" using assms by (simp add: allDeleted_def)
  show ?thesis
  proof (cases "inArray (int day) (Some (p_dispersalDays P))")
    case False
    then have "startOfDay P R fuel day st = Inr ?st2" by (simp add: startOfDay_def Let_def)
    with a2 e show ?thesis by simp
  next
    case True
    have "\<forall>i\<in>set [0 ..< st_nStoats ?st2]. deleted (st_stoatArray ?st2 ! i)"
      using a2 by (simp add: allDeleted_def)
    from disperse_allDeleted [OF this, of P R fuel "st_rpos ?st2"] obtain sa' where
      d: "disperse P R fuel [0 ..< st_nStoats ?st2] (st_stoatArray ?st2) (st_rpos ?st2) = Inr (sa', st_rpos ?st2)"
      and dd: "\<forall>j. deleted (sa' ! j) = deleted (st_stoatArray ?st2 ! j)" by blast
    have "startOfDay P R fuel day st = Inr (?st2\<lparr>st_stoatArray := sa', st_rpos := st_rpos ?st2\<rparr>)"
      using True d unfolding startOfDay_def Let_def by simp
    moreover have "allDeleted (?st2\<lparr>st_stoatArray := sa', st_rpos := st_rpos ?st2\<rparr>)"
      using a2 dd by (simp add: allDeleted_def)
    ultimately show ?thesis using e by simp
  qed
qed

lemma endOfDay_stoats [simp]:
  "st_stoatArray (endOfDay st) = st_stoatArray st" "st_nStoats (endOfDay st) = st_nStoats st"
  "st_Current_Id (endOfDay st) = st_Current_Id st"
  by (simp_all add: endOfDay_def)


lemma runDay_allDeleted:
  assumes ad: "allDeleted st" and n: "st_nStoats st \<le> 175" and h: "1 \<le> p_hoursPerDay P"
  shows "\<exists>st'. runDay P R fuel day er st = Inr (Returned True st') \<and> allDeleted st'"
proof -
  from startOfDay_allDeleted [OF ad, of P R fuel day] obtain st1 where
    sod: "startOfDay P R fuel day st = Inr st1" and ad1: "allDeleted st1" by blast
  from h obtain rest where hs: "[0 ..< nat (p_hoursPerDay P)] = 0 # rest"
    by (cases "[0 ..< nat (p_hoursPerDay P)]") (auto simp: upt_eq_Cons_conv)
  have "hourLoop P R fuel day [0 ..< nat (p_hoursPerDay P)] er st1 = Inr (Returned True st1)"
    unfolding hs using runHour_allDeleted [OF ad1, of P R fuel day 0] by simp
  with sod n have "runDay P R fuel day er st = Inr (Returned True st1)"
    by (simp add: runDay_def)
  with ad1 show ?thesis by blast
qed



section \<open>The bearing of a newborn\<close>







section \<open>Reachable states and positions on land\<close>

lemma createInitialStoats_loop_effect:
  "createInitialStoats_loop R fuel (p_mask P) (p_tlx P) (p_tly P) (p_brx P) (p_bry P) (p_pixSize P) nPreg
      [k ..< b] (sa, int k, rp) = Inr (sa', cid', rp') \<Longrightarrow> k \<le> b \<Longrightarrow>
   cid' = int b \<and> length sa' = length sa \<and> (k < b \<longrightarrow> b \<le> length sa)
   \<and> (\<forall>j. (k \<le> j \<and> j < b \<longrightarrow> seededSlot P j (sa' ! j)) \<and> (\<not> (k \<le> j \<and> j < b) \<longrightarrow> sa' ! j = sa ! j))"
proof (induction "b - k" arbitrary: k sa rp)
  case 0
  then show ?case by auto
next
  case (Suc d)
  then have kb: "k < b" by simp
  then have up: "[k ..< b] = k # [Suc k ..< b]" by (simp add: upt_conv_Cons)
  from Suc.prems(1) obtain x y rp1 where
    loc: "createRandomLocationOnIsland R fuel (p_mask P) (p_tlx P) (p_tly P) (p_brx P) (p_bry P) (p_pixSize P) rp
           = Inr (x, y, rp1)"
    unfolding up by (auto split: sum.splits)
  from createRandomLocationOnIsland_onLand [OF loc] have ol: "onLand P x y = Inr True"
    by (simp add: onLand_def)
  let ?sa1 = "sa[k := seedStoat (sa ! k) k (rnd_random R rp1 < 0.5) x y nPreg (int k)]"
  from Suc.prems(1) loc have kl: "k < length sa"
    unfolding up by (auto split: if_splits)
  from Suc.prems(1) loc kl have rest:
    "createInitialStoats_loop R fuel (p_mask P) (p_tlx P) (p_tly P) (p_brx P) (p_bry P) (p_pixSize P) nPreg
      [Suc k ..< b] (?sa1, int (Suc k), rp1 + 1) = Inr (sa', cid', rp')"
    unfolding up by (simp add: add.commute)
  have d: "d = b - Suc k" using Suc.hyps(2) by simp
  from kb have sk: "Suc k \<le> b" by simp
  from Suc.hyps(1) [OF d rest sk]
  have c: "cid' = int b" and len: "length sa' = length sa"
    and bl: "Suc k < b \<longrightarrow> b \<le> length sa"
    and in1: "\<And>j. Suc k \<le> j \<and> j < b \<Longrightarrow> seededSlot P j (sa' ! j)"
    and out1: "\<And>j. \<not> (Suc k \<le> j \<and> j < b) \<Longrightarrow> sa' ! j = ?sa1 ! j"
    by auto
  have sk0: "seededSlot P k (?sa1 ! k)"
    using kl ol by (simp add: seededSlot_def seedStoat_def Let_def)
  have a: "seededSlot P j (sa' ! j)" if "k \<le> j \<and> j < b" for j
  proof (cases "j = k")
    case True
    with out1 [of k] sk0 show ?thesis by simp
  next
    case False
    with that in1 [of j] show ?thesis by simp
  qed
  have b': "sa' ! j = sa ! j" if "\<not> (k \<le> j \<and> j < b)" for j
  proof -
    from that kb have "\<not> (Suc k \<le> j \<and> j < b)" "j \<noteq> k" by auto
    with out1 [of j] show ?thesis by simp
  qed
  have "b \<le> length sa" using bl kl kb by (cases "Suc k < b") auto
  with c len a b' show ?case by auto
qed

lemma initialState_effect:
  assumes "initialState P R fuel sa0 nAdd ma0 pia0 rp = Inr st"
  shows "st_nStoats st = nat nAdd \<and> st_Current_Id st = nAdd \<and> 0 < nAdd
     \<and> st_nStoats st \<le> length (st_stoatArray st)
     \<and> st_matingArray st = ma0 \<and> st_pheromoneInteractionArray st = pia0
     \<and> (\<forall>j<st_nStoats st. seededSlot P j (st_stoatArray st ! j))"
proof -
  from assms have pos: "0 < nAdd"
    by (auto simp: initialState_def createInitialStoats_def split: if_splits)
  with assms obtain sa cid rp' where
    lp: "createInitialStoats_loop R fuel (p_mask P) (p_tlx P) (p_tly P) (p_brx P) (p_bry P) (p_pixSize P)
           (p_nDaysPregnantBeforeBirth P) [0 ..< nat nAdd] (sa0, int 0, rp) = Inr (sa, cid, rp')"
    and st: "st = \<lparr>st_stoatArray = sa, st_nStoats = nat cid, st_Current_Id = cid, st_matingArray = ma0,
               st_pheromoneInteractionArray = pia0, st_inEstrous = False,
               st_daysSincePheromoneRelease = -1, st_rpos = rp'\<rparr>"
    by (auto simp: initialState_def createInitialStoats_def split: sum.splits if_splits)
  from createInitialStoats_loop_effect [OF lp] pos
  have c: "cid = int (nat nAdd)" and len: "length sa = length sa0" and bl: "nat nAdd \<le> length sa0"
    and sl: "\<And>j. j < nat nAdd \<Longrightarrow> seededSlot P j (sa ! j)" by auto
  from c pos have "cid = nAdd" by simp
  with st len bl sl pos show ?thesis by simp
qed

lemma reachable_wf: "reachable P st \<Longrightarrow> wfState st"
proof (induction rule: reachable.induct)
  case (seeded R fuel sa0 nAdd ma0 pia0 rp st)
  from initialState_effect [OF seeded(1)] show ?case by (simp add: wfState_def)
next
  case (turn st s R fuel day hour st')
  from processStoat_wf [OF turn(4) turn(2) turn(3) turn(5)] show ?case by simp
next
  case (day_start st R fuel day st')
  from startOfDay_wf [OF day_start(2) day_start(3)] show ?case .
next
  case (day_end st)
  then show ?case by (simp add: wfState_def)
qed

lemma processStoat_onLand:
  assumes ps: "processStoat P R fuel day hour s st = Inr st'"
    and s: "s < st_nStoats st" and live: "\<not> deleted (st_stoatArray st ! s)" and wf: "wfState st"
    and inv: "onLandInv P st"
  shows "onLandInv P st'"
proof -
  let ?sa = "st_stoatArray st"
  from ps s live obtain st3 killed where
    len: "length (st_stoatArray st3) = length ?sa"
    and nl: "st_nStoats st \<le> length ?sa \<longrightarrow> st_nStoats st3 \<le> length ?sa"
    and all0: "\<forall>j. (\<not> (st_nStoats st \<le> j \<and> j < st_nStoats st3)
                \<and> sameCore (?sa ! j) (st_stoatArray st3 ! j))
            \<or> (j < st_nStoats st3 \<and> (deleted (?sa ! j) \<or> st_nStoats st \<le> j)
               \<and> kitIn (?sa ! s) (st_Current_Id st) (st_Current_Id st3)
                    (?sa ! j) (st_stoatArray st3 ! j))"
    and fin: "(killed \<and> st' = killStoat s st3)
        \<or> (\<not> killed \<and> parentid (st_stoatArray st3 ! s) \<noteq> -1 \<and> (\<exists>rp. st' = st3\<lparr>st_rpos := rp\<rparr>))
        \<or> (\<not> killed \<and> parentid (st_stoatArray st3 ! s) = -1
           \<and> (\<exists>b nx ny rp. onLand P nx ny = Inr True
                \<and> st' = st3\<lparr>st_stoatArray := (st_stoatArray st3)[s := (st_stoatArray st3 ! s)
                                 \<lparr>bearingT_1 := b, xpos := nx, ypos := ny\<rparr>],
                             st_rpos := rp\<rparr>))"
    by (rule processStoat_prefixE)
  let ?sa3 = "st_stoatArray st3"
  from s wf len have sl: "s < length ?sa3" by (simp add: wfState_def)
  from inv s live have ms: "onLand P (xpos (?sa ! s)) (ypos (?sa ! s)) = Inr True"
    by (simp add: onLandInv_def)
  have i3: "onLand P (xpos (?sa3 ! j)) (ypos (?sa3 ! j)) = Inr True"
    if j: "j < st_nStoats st3" and lj: "\<not> deleted (?sa3 ! j)" for j
    using spec [OF all0, of j]
  proof
    assume a: "\<not> (st_nStoats st \<le> j \<and> j < st_nStoats st3) \<and> sameCore (?sa ! j) (?sa3 ! j)"
    then have c: "sameCore (?sa ! j) (?sa3 ! j)" and jn: "j < st_nStoats st" using j by auto
    from sameCore_fields [OF c] lj have "\<not> deleted (?sa ! j)" "xpos (?sa3 ! j) = xpos (?sa ! j)"
      "ypos (?sa3 ! j) = ypos (?sa ! j)" by simp_all
    with inv jn show ?thesis by (simp add: onLandInv_def)
  next
    assume "j < st_nStoats st3 \<and> (deleted (?sa ! j) \<or> st_nStoats st \<le> j)
               \<and> kitIn (?sa ! s) (st_Current_Id st) (st_Current_Id st3) (?sa ! j) (?sa3 ! j)"
    then have "xpos (?sa3 ! j) = xpos (?sa ! s)" "ypos (?sa3 ! j) = ypos (?sa ! s)"
      by (simp_all add: kitIn_def)
    with ms show ?thesis by simp
  qed
  from fin show ?thesis
  proof (elim disjE conjE exE)
    assume st': "st' = killStoat s st3"
    note ke = killStoat_effect [OF sl]
    show ?thesis
      unfolding onLandInv_def
    proof (intro allI impI)
      fix i assume i: "i < st_nStoats st'" and li: "\<not> deleted (st_stoatArray st' ! i)"
      from li st' ke(8) [of i] have e: "st_stoatArray st' ! i = ?sa3 ! i"
        by (auto split: if_splits)
      from i st' ke(1) have "i < st_nStoats st3" by simp
      with i3 [of i] li e show "onLand P (xpos (st_stoatArray st' ! i)) (ypos (st_stoatArray st' ! i)) = Inr True"
        by simp
    qed
  next
    fix rp assume "st' = st3\<lparr>st_rpos := rp\<rparr>"
    with i3 show ?thesis by (simp add: onLandInv_def)
  next
    fix b nx ny rp
    assume ol: "onLand P nx ny = Inr True"
      and st': "st' = st3\<lparr>st_stoatArray := ?sa3[s := (?sa3 ! s)\<lparr>bearingT_1 := b, xpos := nx, ypos := ny\<rparr>],
                             st_rpos := rp\<rparr>"
    show ?thesis
      unfolding onLandInv_def
    proof (intro allI impI)
      fix i assume i: "i < st_nStoats st'" and li: "\<not> deleted (st_stoatArray st' ! i)"
      show "onLand P (xpos (st_stoatArray st' ! i)) (ypos (st_stoatArray st' ! i)) = Inr True"
      proof (cases "i = s")
        case True
        with st' sl ol show ?thesis by simp
      next
        case False
        with st' have e: "st_stoatArray st' ! i = ?sa3 ! i" by simp
        from i st' have "i < st_nStoats st3" by simp
        with i3 [of i] li e show ?thesis by simp
      qed
    qed
  qed
qed

lemma startOfDay_effect:
  assumes "startOfDay P R fuel day st = Inr st'"
  shows "st_nStoats st' = st_nStoats st \<and> st_Current_Id st' = st_Current_Id st
     \<and> st_matingArray st' = st_matingArray st
     \<and> st_pheromoneInteractionArray st' = st_pheromoneInteractionArray st
     \<and> length (st_stoatArray st') = length (st_stoatArray st)
     \<and> (\<forall>j. dispersalRel P (st_stoatArray st ! j) (st_stoatArray st' ! j))"
proof -
  let ?st1 = "(if inArray (int day) (Some (p_pheromoneReleaseDays P))
                 then st\<lparr>st_daysSincePheromoneRelease := 0\<rparr> else st)"
  let ?st2 = "(if inArray (int day) (Some (p_estrousStartDays P)) then ?st1\<lparr>st_inEstrous := True\<rparr>
                 else if inArray (int day) (Some (p_estrousEndDays P)) then ?st1\<lparr>st_inEstrous := False\<rparr>
                 else ?st1)"
  have e: "st_stoatArray ?st2 = st_stoatArray st" "st_nStoats ?st2 = st_nStoats st"
    "st_Current_Id ?st2 = st_Current_Id st" "st_matingArray ?st2 = st_matingArray st"
    "st_pheromoneInteractionArray ?st2 = st_pheromoneInteractionArray st" by simp_all
  show ?thesis
  proof (cases "inArray (int day) (Some (p_dispersalDays P))")
    case False
    with assms have "st' = ?st2" by (simp add: startOfDay_def Let_def)
    with e show ?thesis by simp
  next
    case True
    with assms obtain sa' rp' where
      d: "disperse P R fuel [0 ..< st_nStoats ?st2] (st_stoatArray ?st2) (st_rpos ?st2) = Inr (sa', rp')"
      and st': "st' = ?st2\<lparr>st_stoatArray := sa', st_rpos := rp'\<rparr>"
      unfolding startOfDay_def Let_def by (auto split: sum.splits)
    from disperse_effect [OF d] e st' show ?thesis by simp
  qed
qed

lemma startOfDay_onLand:
  assumes sod: "startOfDay P R fuel day st = Inr st'" and inv: "onLandInv P st"
  shows "onLandInv P st'"
proof -
  from startOfDay_effect [OF sod] have n: "st_nStoats st' = st_nStoats st"
    and r: "\<And>j. dispersalRel P (st_stoatArray st ! j) (st_stoatArray st' ! j)" by auto
  show ?thesis
    unfolding onLandInv_def
  proof (intro allI impI)
    fix i assume i: "i < st_nStoats st'" and li: "\<not> deleted (st_stoatArray st' ! i)"
    from r [of i] li have "\<not> deleted (st_stoatArray st ! i)" by (simp add: dispersalRel_def)
    with inv i n have "onLand P (xpos (st_stoatArray st ! i)) (ypos (st_stoatArray st ! i)) = Inr True"
      by (simp add: onLandInv_def)
    with r [of i] show "onLand P (xpos (st_stoatArray st' ! i)) (ypos (st_stoatArray st' ! i)) = Inr True"
      by (auto simp: dispersalRel_def)
  qed
qed

lemma reachable_onLand: "reachable P st \<Longrightarrow> onLandInv P st"
proof (induction rule: reachable.induct)
  case (seeded R fuel sa0 nAdd ma0 pia0 rp st)
  from initialState_effect [OF seeded(1)] show ?case
    by (simp add: onLandInv_def seededSlot_def)
next
  case (turn st s R fuel day hour st')
  from processStoat_onLand [OF turn(4) turn(2) turn(3) reachable_wf [OF turn(1)] turn(5)]
  show ?case .
next
  case (day_start st R fuel day st')
  from startOfDay_onLand [OF day_start(2) day_start(3)] show ?case .
next
  case (day_end st)
  then show ?case by (simp add: onLandInv_def)
qed

text \<open>A run of the loops of \<open>runRealisation\<close> stays within the reachable states.\<close>

lemma stoatLoop_reachable:
  "stoatLoop P R fuel day hour js er st = Inr (er', st') \<Longrightarrow> reachable P st \<Longrightarrow>
   \<forall>j\<in>set js. j < st_nStoats st \<Longrightarrow> reachable P st'"
proof (induction js arbitrary: er st)
  case Nil
  then show ?case by simp
next
  case (Cons s js)
  show ?case
  proof (cases "deleted (st_stoatArray st ! s)")
    case True
    with Cons.prems have "stoatLoop P R fuel day hour js er st = Inr (er', st')" by simp
    from Cons.IH [OF this Cons.prems(2)] Cons.prems(3) show ?thesis by simp
  next
    case False
    with Cons.prems obtain st1 where ps: "processStoat P R fuel day hour s st = Inr st1"
      and rest: "stoatLoop P R fuel day hour js False st1 = Inr (er', st')"
      by (auto split: sum.splits)
    from Cons.prems(3) have s: "s < st_nStoats st" by simp
    from reachable.turn [OF Cons.prems(2) s False ps] have r1: "reachable P st1" .
    from processStoat_wf [OF ps s False reachable_wf [OF Cons.prems(2)]]
    have "st_nStoats st \<le> st_nStoats st1" by simp
    with Cons.prems(3) have "\<forall>j\<in>set js. j < st_nStoats st1" by auto
    from Cons.IH [OF rest r1 this] show ?thesis .
  qed
qed

lemma hourLoop_reachable:
  "hourLoop P R fuel day hs er st = Inr fl \<Longrightarrow> reachable P st \<Longrightarrow>
   (case fl of Returned b st' \<Rightarrow> reachable P st' | Running e st' \<Rightarrow> reachable P st')"
proof (induction hs arbitrary: er st)
  case Nil
  then show ?case by auto
next
  case (Cons h hs)
  from Cons.prems(1) obtain e1 st1 where rh: "runHour P R fuel day h st = Inr (e1, st1)"
    by (cases "runHour P R fuel day h st") auto
  from stoatLoop_reachable [of P R fuel day h "[0 ..< st_nStoats st]" True st e1 st1] rh Cons.prems(2)
  have r1: "reachable P st1" by (simp add: runHour_def)
  show ?case
  proof (cases e1)
    case True
    with Cons.prems(1) rh have "fl = Returned True st1" by simp
    with r1 show ?thesis by simp
  next
    case False
    with Cons.prems(1) rh have "hourLoop P R fuel day hs (Some e1) st1 = Inr fl" by simp
    from Cons.IH [OF this r1] show ?thesis .
  qed
qed

lemma runDay_reachable:
  assumes "runDay P R fuel day er st = Inr fl" and "reachable P st"
  shows "case fl of Returned b st' \<Rightarrow> reachable P st' | Running e st' \<Rightarrow> reachable P st'"
proof (cases "175 < st_nStoats st")
  case True
  with assms show ?thesis by (auto simp: runDay_def)
next
  case False
  with assms obtain st1 where sod: "startOfDay P R fuel day st = Inr st1"
    by (cases "startOfDay P R fuel day st") (auto simp: runDay_def)
  from reachable.day_start [OF assms(2) sod] have r1: "reachable P st1" .
  from assms(1) False sod obtain fl1 where
    hl: "hourLoop P R fuel day [0 ..< nat (p_hoursPerDay P)] er st1 = Inr fl1"
    by (cases "hourLoop P R fuel day [0 ..< nat (p_hoursPerDay P)] er st1") (auto simp: runDay_def)
  from hourLoop_reachable [OF hl r1] have h: "case fl1 of Returned b st' \<Rightarrow> reachable P st' | Running e st' \<Rightarrow> reachable P st'" .
  show ?thesis
  proof (cases fl1)
    case (Returned b st2)
    with assms(1) False sod hl have "fl = Returned b st2" by (simp add: runDay_def)
    with h Returned show ?thesis by simp
  next
    case (Running e st2)
    with assms(1) False sod hl have "fl = Running e (endOfDay st2)" by (simp add: runDay_def)
    moreover from h Running have "reachable P (endOfDay st2)" by (simp add: reachable.day_end)
    ultimately show ?thesis by simp
  qed
qed

lemma dayLoop_reachable:
  "dayLoop P R fuel ds er st = Inr (b, st') \<Longrightarrow> reachable P st \<Longrightarrow> reachable P st'"
proof (induction ds arbitrary: er st)
  case Nil
  then show ?case by (auto split: option.splits)
next
  case (Cons d ds)
  from Cons.prems(1) obtain fl where rd: "runDay P R fuel d er st = Inr fl"
    by (cases "runDay P R fuel d er st") auto
  from runDay_reachable [OF rd Cons.prems(2)]
  have h: "case fl of Returned b st' \<Rightarrow> reachable P st' | Running e st' \<Rightarrow> reachable P st'" .
  show ?case
  proof (cases fl)
    case (Returned b1 st1)
    with Cons.prems(1) rd have "st' = st1" by simp
    with h Returned show ?thesis by simp
  next
    case (Running e st1)
    with Cons.prems(1) rd have "dayLoop P R fuel ds e st1 = Inr (b, st')" by simp
    moreover from h Running have "reachable P st1" by simp
    ultimately show ?thesis by (rule Cons.IH)
  qed
qed

lemma runRealisation_reachable:
  assumes "initialState P R0 fuel0 sa0 nAdd ma0 pia0 rp = Inr st"
    and "\<forall>s\<in>set sa0. deleted s" and "\<forall>e\<in>set ma0. maleid e = -1" and "\<forall>e\<in>set pia0. stoatid e = -1"
    and "runRealisation P R fuel st = Inr (b, st')"
  shows "reachable P st'"
proof -
  from assms(1) have "st\<lparr>st_daysSincePheromoneRelease := -1, st_inEstrous := False\<rparr> = st"
    by (auto simp: initialState_def split: sum.splits)
  with assms(5) have "dayLoop P R fuel [0 ..< nat (p_nDays P)] None st = Inr (b, st')"
    by (simp add: runRealisation_def)
  moreover have "reachable P st" using assms(1-4) by (rule reachable.seeded)
  ultimately show ?thesis by (rule dayLoop_reachable)
qed

section \<open>A position outside the mask\<close>

lemma c6_seeded_init:
  "initialState c6_params rng_east 1 [deletedSlot] 1 [freeMating] [freeInteraction] 0 = Inr c6_seeded"
  by (simp add: initialState_def createInitialStoats_def c6_params_def params0_def rng_east_def
      rng0_def checkLocationIsOnIsland_def maskRead_def npRound_def seedStoat_def
      deletedSlot_def adultAt_def int32_def c6_seeded_def)

lemma c6_seeded_reachable: "reachable c6_params c6_seeded"
  by (rule reachable.seeded [OF c6_seeded_init])
     (simp_all add: deletedSlot_def adultAt_def freeMating_def freeInteraction_def)

lemma c6_turn: "processStoat c6_params rng_east 1 0 0 0 c6_seeded = Inr c6_after"
  by (simp add: eval_defs c6_seeded_def c6_after_def c6_params_def params0_def rng_east_def rng0_def
      moveStoat_def moveRound_def onLand_def checkLocationIsOnIsland_def maskRead_def npRound_def)

lemma c6_after_reachable: "reachable c6_params c6_after"
  by (rule reachable.turn [OF c6_seeded_reachable _ _ c6_turn])
     (simp_all add: c6_seeded_def adultAt_def)

text \<open>
  Claim C6 fails on the code. The realisation seeds one female at (75, 225), in the
  centre cell of the mask, which is land. In hour 0 of day 0 she steps 200 m due east,
  to (275, 225). The bounding-box test of line 70 admits every x up to brx = 300, but
  the column index of line 73 is \<open>round(275 / 100) = 3\<close>, one past the three columns of
  the mask. The unchecked read \<open>mask[1, 3]\<close> returns the first cell of the next row,
  which is land, so the candidate is accepted and written back. No cell of the mask
  stands for that point, and the whole east column is water: a live stoat of a reachable
  state is at a position that is not on land, after one movement step that started on
  land.
\<close>

theorem move_commits_position_outside_mask:
  "reachable c6_params c6_seeded
   \<and> isOnLand_spec (p_mask c6_params) (p_tlx c6_params) (p_tly c6_params) (p_brx c6_params)
        (p_bry c6_params) (p_pixSize c6_params)
        (xpos (st_stoatArray c6_seeded ! 0)) (ypos (st_stoatArray c6_seeded ! 0))
   \<and> processStoat c6_params rng_east 1 0 0 0 c6_seeded = Inr c6_after
   \<and> reachable c6_params c6_after
   \<and> 0 < st_nStoats c6_after
   \<and> \<not> deleted (st_stoatArray c6_after ! 0)
   \<and> xpos (st_stoatArray c6_after ! 0) = 275 \<and> ypos (st_stoatArray c6_after ! 0) = 225
   \<and> npRound ((275 - p_tlx c6_params) / p_pixSize c6_params) = 3
   \<and> length (cells (p_mask c6_params) ! 1) = 3
   \<and> checkLocationIsOnIsland (p_mask c6_params) (p_tlx c6_params) (p_tly c6_params)
        (p_brx c6_params) (p_bry c6_params) (p_pixSize c6_params) 275 225 = Inr True
   \<and> \<not> isOnLand_spec (p_mask c6_params) (p_tlx c6_params) (p_tly c6_params) (p_brx c6_params)
        (p_bry c6_params) (p_pixSize c6_params) 275 225"
proof -
  have a: "isOnLand_spec (p_mask c6_params) (p_tlx c6_params) (p_tly c6_params) (p_brx c6_params)
        (p_bry c6_params) (p_pixSize c6_params)
        (xpos (st_stoatArray c6_seeded ! 0)) (ypos (st_stoatArray c6_seeded ! 0))"
    by (simp add: isOnLand_spec_def c6_params_def params0_def npRound_def c6_seeded_def adultAt_def)
  have c: "0 < st_nStoats c6_after \<and> \<not> deleted (st_stoatArray c6_after ! 0)
     \<and> xpos (st_stoatArray c6_after ! 0) = 275 \<and> ypos (st_stoatArray c6_after ! 0) = 225"
    by (simp add: c6_after_def c6_seeded_def adultAt_def)
  have d: "npRound ((275 - p_tlx c6_params) / p_pixSize c6_params) = 3
     \<and> length (cells (p_mask c6_params) ! 1) = 3"
    by (simp add: c6_params_def params0_def npRound_def)
  have e: "checkLocationIsOnIsland (p_mask c6_params) (p_tlx c6_params) (p_tly c6_params)
        (p_brx c6_params) (p_bry c6_params) (p_pixSize c6_params) 275 225 = Inr True"
    by (simp add: checkLocationIsOnIsland_def maskRead_def npRound_def c6_params_def params0_def)
  have f: "\<not> isOnLand_spec (p_mask c6_params) (p_tlx c6_params) (p_tly c6_params) (p_brx c6_params)
        (p_bry c6_params) (p_pixSize c6_params) 275 225"
    by (simp add: isOnLand_spec_def c6_params_def params0_def npRound_def)
  from c6_seeded_reachable a c6_turn c6_after_reachable c d e f show ?thesis by simp
qed

section \<open>The mating table names each pair once\<close>

lemma idsInvI:
  assumes c: "0 \<le> cid"
    and a: "\<And>j. j < n \<Longrightarrow> \<not> deleted (sa ! j) \<Longrightarrow> 0 \<le> stoat_id (sa ! j) \<and> stoat_id (sa ! j) < cid"
    and b: "\<And>j k. j < n \<Longrightarrow> k < n \<Longrightarrow> \<not> deleted (sa ! j) \<Longrightarrow> \<not> deleted (sa ! k) \<Longrightarrow>
               stoat_id (sa ! j) = stoat_id (sa ! k) \<Longrightarrow> j = k"
  shows "idsInv n sa cid"
proof -
  have 1: "\<forall>i<n. \<not> deleted (sa ! i) \<longrightarrow> 0 \<le> stoat_id (sa ! i) \<and> stoat_id (sa ! i) < cid"
    using a by simp
  have 2: "\<forall>i<n. \<forall>j<n. \<not> deleted (sa ! i) \<and> \<not> deleted (sa ! j)
             \<and> stoat_id (sa ! i) = stoat_id (sa ! j) \<longrightarrow> i = j"
  proof (intro allI impI)
    fix i j assume "i < n" "j < n"
      "\<not> deleted (sa ! i) \<and> \<not> deleted (sa ! j) \<and> stoat_id (sa ! i) = stoat_id (sa ! j)"
    then show "i = j" using b [of i j] by simp
  qed
  from c 1 2 show ?thesis unfolding idsInv_def by simp
qed

lemma idsInvD0: "idsInv n sa cid \<Longrightarrow> 0 \<le> cid"
  unfolding idsInv_def by simp

lemma idsInvD1:
  "idsInv n sa cid \<Longrightarrow> j < n \<Longrightarrow> \<not> deleted (sa ! j) \<Longrightarrow> 0 \<le> stoat_id (sa ! j) \<and> stoat_id (sa ! j) < cid"
  unfolding idsInv_def by simp

lemma idsInvD2:
  "idsInv n sa cid \<Longrightarrow> j < n \<Longrightarrow> k < n \<Longrightarrow> \<not> deleted (sa ! j) \<Longrightarrow> \<not> deleted (sa ! k) \<Longrightarrow>
   stoat_id (sa ! j) = stoat_id (sa ! k) \<Longrightarrow> j = k"
  unfolding idsInv_def by simp

lemma namesAdult_sex:
  assumes "idsInv n sa cid" "namesAdult n sa True k" "namesAdult n sa False k'"
  shows "k \<noteq> k'"
proof
  assume e: "k = k'"
  from assms(2) obtain i where i: "i < n" "\<not> deleted (sa ! i)" "male (sa ! i)" "stoat_id (sa ! i) = k"
    unfolding namesAdult_def by auto
  from assms(3) obtain j where j: "j < n" "\<not> deleted (sa ! j)" "\<not> male (sa ! j)" "stoat_id (sa ! j) = k'"
    unfolding namesAdult_def by auto
  from idsInvD2 [OF assms(1) i(1) j(1) i(2) j(2)] i j e have "i = j" by simp
  with i j show False by simp
qed

lemma linv_unique:
  assumes "linv n sa cid ma"
  shows "matingLedgerUnique ma"
proof -
  from assms have ids: "idsInv n sa cid" and refs: "ledgerRefs n sa ma" and ou: "orderedUnique ma"
    by (simp_all add: linv_def)
  have "maleid (ma ! m) \<noteq> femaleid (ma ! m)
        \<and> (\<forall>m'<length ma. m' \<noteq> m \<and> maleid (ma ! m') \<noteq> -1 \<longrightarrow>
              \<not> ((maleid (ma ! m') = maleid (ma ! m) \<and> femaleid (ma ! m') = femaleid (ma ! m))
                 \<or> (maleid (ma ! m') = femaleid (ma ! m) \<and> femaleid (ma ! m') = maleid (ma ! m))))"
    if m: "m < length ma" and a: "maleid (ma ! m) \<noteq> -1" for m
  proof (intro conjI allI impI)
    from refs m a have r: "namesAdult n sa True (maleid (ma ! m))" "namesAdult n sa False (femaleid (ma ! m))"
      unfolding ledgerRefs_def by auto
    from namesAdult_sex [OF ids r] show "maleid (ma ! m) \<noteq> femaleid (ma ! m)" .
    fix m' assume m': "m' < length ma" and h: "m' \<noteq> m \<and> maleid (ma ! m') \<noteq> -1"
    from refs m' h have r': "namesAdult n sa True (maleid (ma ! m'))" "namesAdult n sa False (femaleid (ma ! m'))"
      unfolding ledgerRefs_def by auto
    have one: "\<not> (maleid (ma ! m') = maleid (ma ! m) \<and> femaleid (ma ! m') = femaleid (ma ! m))"
      using ou m m' a h unfolding orderedUnique_def by metis
    have two: "\<not> (maleid (ma ! m') = femaleid (ma ! m) \<and> femaleid (ma ! m') = maleid (ma ! m))"
      using namesAdult_sex [OF ids r'(1) r(2)] by simp
    from one two show "\<not> ((maleid (ma ! m') = maleid (ma ! m) \<and> femaleid (ma ! m') = femaleid (ma ! m))
                 \<or> (maleid (ma ! m') = femaleid (ma ! m) \<and> femaleid (ma ! m') = maleid (ma ! m)))"
      by simp
  qed
  then show ?thesis unfolding matingLedgerUnique_def list_all_iff by simp
qed

lemma namesAdult_frame:
  assumes "namesAdult n sa g k" and "\<forall>j<n. sameIdentity (sa ! j) (sa' ! j)"
  shows "namesAdult n sa' g k"
proof -
  from assms(1) obtain i where i: "i < n" "\<not> deleted (sa ! i)" "male (sa ! i) = g"
    "parentid (sa ! i) = -1" "stoat_id (sa ! i) = k"
    unfolding namesAdult_def by auto
  from assms(2) i(1) have "sameIdentity (sa ! i) (sa' ! i)" by simp
  with i show ?thesis unfolding namesAdult_def sameIdentity_def by (intro exI [of _ i]) auto
qed

lemma linv_frame:
  assumes inv: "linv n sa cid ma" and len: "length sa' = length sa"
    and fr: "\<forall>j<n. sameIdentity (sa ! j) (sa' ! j)"
  shows "linv n sa' cid ma"
proof -
  from inv have n: "n \<le> length sa" and ids: "idsInv n sa cid" and refs: "ledgerRefs n sa ma"
    and ou: "orderedUnique ma" by (simp_all add: linv_def)
  have d: "deleted (sa' ! j) = deleted (sa ! j)" "stoat_id (sa' ! j) = stoat_id (sa ! j)" if "j < n" for j
    using fr that by (simp_all add: sameIdentity_def)
  have ids': "idsInv n sa' cid"
  proof (rule idsInvI)
    show "0 \<le> cid" by (rule idsInvD0 [OF ids])
  next
    fix j assume "j < n" "\<not> deleted (sa' ! j)"
    with idsInvD1 [OF ids, of j] d [of j] show "0 \<le> stoat_id (sa' ! j) \<and> stoat_id (sa' ! j) < cid" by simp
  next
    fix j k assume "j < n" "k < n" "\<not> deleted (sa' ! j)" "\<not> deleted (sa' ! k)"
      "stoat_id (sa' ! j) = stoat_id (sa' ! k)"
    with idsInvD2 [OF ids, of j k] d [of j] d [of k] show "j = k" by simp
  qed
  have refs': "ledgerRefs n sa' ma"
    using refs namesAdult_frame [OF _ fr] unfolding ledgerRefs_def by blast
  from n len ids' refs' ou show ?thesis by (simp add: linv_def)
qed

lemma linv_mating:
  assumes inv: "linv n sa cid ma" and s: "s < n" "\<not> deleted (sa ! s)" "male (sa ! s)"
    "parentid (sa ! s) = -1"
    and i: "i < n" and fe: "femaleEncountered x y (stoat_id (sa ! s)) sa ma enc i"
    and ff: "firstFreeMating ma m"
  shows "linv n sa cid (ma[m := (ma ! m)\<lparr>maleid := stoat_id (sa ! s), femaleid := stoat_id (sa ! i),
                                          m_ndays := d\<rparr>])"
proof -
  let ?e = "(ma ! m)\<lparr>maleid := stoat_id (sa ! s), femaleid := stoat_id (sa ! i), m_ndays := d\<rparr>"
  let ?ma = "ma[m := ?e]"
  from inv have n: "n \<le> length sa" and ids: "idsInv n sa cid" and refs: "ledgerRefs n sa ma"
    and ou: "orderedUnique ma" by (simp_all add: linv_def)
  from ff have m: "m < length ma" and free: "maleid (ma ! m) = -1" by (simp_all add: firstFreeMating_def)
  from fe have f: "\<not> deleted (sa ! i)" "\<not> male (sa ! i)" "parentid (sa ! i) = -1"
    and nm: "\<not> alreadyMatedWith ma (stoat_id (sa ! s)) (stoat_id (sa ! i))"
    by (simp_all add: femaleEncountered_def)
  have na1: "namesAdult n sa True (stoat_id (sa ! s))"
    unfolding namesAdult_def using s by (intro exI [of _ s]) simp
  have na2: "namesAdult n sa False (stoat_id (sa ! i))"
    unfolding namesAdult_def using i f by (intro exI [of _ i]) simp
  have nth: "?ma ! k = (if k = m then ?e else ma ! k)" if "k < length ma" for k
    using that by (simp add: nth_list_update)
  have refs': "ledgerRefs n sa ?ma"
    unfolding ledgerRefs_def
  proof (intro allI impI)
    fix k assume k: "k < length ?ma" and a: "maleid (?ma ! k) \<noteq> -1"
    show "namesAdult n sa True (maleid (?ma ! k)) \<and> namesAdult n sa False (femaleid (?ma ! k))"
    proof (cases "k = m")
      case True
      with m na1 na2 show ?thesis by simp
    next
      case False
      with k a refs show ?thesis unfolding ledgerRefs_def by simp
    qed
  qed
  have nomatch: "\<not> (maleid (ma ! k) = stoat_id (sa ! s) \<and> femaleid (ma ! k) = stoat_id (sa ! i))"
    if "k < length ma" for k
    using nm that unfolding alreadyMatedWith_def list_ex_iff by (metis nth_mem)
  have ou': "orderedUnique ?ma"
    unfolding orderedUnique_def
  proof (intro allI impI)
    fix k k' assume k: "k < length ?ma" and k': "k' < length ?ma"
      and h: "maleid (?ma ! k) \<noteq> -1 \<and> maleid (?ma ! k') \<noteq> -1 \<and> maleid (?ma ! k) = maleid (?ma ! k')
              \<and> femaleid (?ma ! k) = femaleid (?ma ! k')"
    show "k = k'"
    proof (cases "k = m")
      case True
      show ?thesis
      proof (cases "k' = m")
        case True with \<open>k = m\<close> show ?thesis by simp
      next
        case False
        with True h k k' m nomatch [of k'] show ?thesis by simp
      qed
    next
      case False
      show ?thesis
      proof (cases "k' = m")
        case True
        with False h k k' m nomatch [of k] show ?thesis by simp
      next
        case F2: False
        with False h k k' ou show ?thesis unfolding orderedUnique_def by simp
      qed
    qed
  qed
  from n ids refs' ou' show ?thesis by (simp add: linv_def)
qed

lemma linv_decrement:
  assumes inv: "linv n sa cid ma"
  shows "linv n sa cid (map decrementMating ma)"
proof -
  from inv have n: "n \<le> length sa" and ids: "idsInv n sa cid" and refs: "ledgerRefs n sa ma"
    and ou: "orderedUnique ma" by (simp_all add: linv_def)
  have a: "maleid (decrementMating e) \<noteq> -1 \<Longrightarrow>
        maleid e \<noteq> -1 \<and> maleid (decrementMating e) = maleid e \<and> femaleid (decrementMating e) = femaleid e" for e
    by (simp add: decrementMating_def Let_def split: if_splits)
  have refs': "ledgerRefs n sa (map decrementMating ma)"
    using refs a unfolding ledgerRefs_def by (metis length_map nth_map)
  have ou': "orderedUnique (map decrementMating ma)"
    unfolding orderedUnique_def
  proof (intro allI impI)
    fix k k' assume k: "k < length (map decrementMating ma)" and k': "k' < length (map decrementMating ma)"
      and h: "maleid (map decrementMating ma ! k) \<noteq> -1 \<and> maleid (map decrementMating ma ! k') \<noteq> -1
        \<and> maleid (map decrementMating ma ! k) = maleid (map decrementMating ma ! k')
        \<and> femaleid (map decrementMating ma ! k) = femaleid (map decrementMating ma ! k')"
    from k k' h a [of "ma ! k"] a [of "ma ! k'"]
    have "maleid (ma ! k) \<noteq> -1 \<and> maleid (ma ! k') \<noteq> -1 \<and> maleid (ma ! k) = maleid (ma ! k')
        \<and> femaleid (ma ! k) = femaleid (ma ! k')" by simp
    with ou k k' show "k = k'" unfolding orderedUnique_def by simp
  qed
  from n ids refs' ou' show ?thesis by (simp add: linv_def)
qed

lemma linv_kill:
  assumes inv: "linv n sa cid ma" and s: "s < n" "\<not> deleted (sa ! s)"
    and len: "length sa' = length sa"
    and eff: "\<forall>j. sa' ! j = (if j = s \<or> (j < n \<and> j < length sa \<and> parentid (sa ! j) = stoat_id (sa ! s))
                               then (sa ! j)\<lparr>deleted := True\<rparr> else sa ! j)"
  shows "linv n sa' cid (purgeMatings (stoat_id (sa ! s)) ma)"
proof -
  let ?k = "stoat_id (sa ! s)"
  let ?ma = "purgeMatings ?k ma"
  from inv have n: "n \<le> length sa" and ids: "idsInv n sa cid" and refs: "ledgerRefs n sa ma"
    and ou: "orderedUnique ma" by (simp_all add: linv_def)
  from idsInvD1 [OF ids s] have k0: "0 \<le> ?k" by simp
  have fld: "stoat_id (sa' ! j) = stoat_id (sa ! j)" "male (sa' ! j) = male (sa ! j)"
    "parentid (sa' ! j) = parentid (sa ! j)" "\<not> deleted (sa' ! j) \<Longrightarrow> \<not> deleted (sa ! j)" for j
    using eff [rule_format, of j] by (simp_all split: if_splits)
  have ids': "idsInv n sa' cid"
  proof (rule idsInvI)
    show "0 \<le> cid" by (rule idsInvD0 [OF ids])
  next
    fix j assume "j < n" "\<not> deleted (sa' ! j)"
    with idsInvD1 [OF ids, of j] fld(1) [of j] fld(4) [of j]
    show "0 \<le> stoat_id (sa' ! j) \<and> stoat_id (sa' ! j) < cid" by simp
  next
    fix j k assume "j < n" "k < n" "\<not> deleted (sa' ! j)" "\<not> deleted (sa' ! k)"
      "stoat_id (sa' ! j) = stoat_id (sa' ! k)"
    with idsInvD2 [OF ids, of j k] fld(1) [of j] fld(1) [of k] fld(4) [of j] fld(4) [of k]
    show "j = k" by simp
  qed
  have lenp: "length ?ma = length ma" by (simp add: purgeMatings_def)
  have act: "maleid (?ma ! m) \<noteq> -1 \<Longrightarrow>
      maleid (ma ! m) \<noteq> -1 \<and> maleid (?ma ! m) = maleid (ma ! m) \<and> femaleid (?ma ! m) = femaleid (ma ! m)
      \<and> maleid (ma ! m) \<noteq> ?k \<and> femaleid (ma ! m) \<noteq> ?k" if "m < length ma" for m
    using that by (simp add: purgeMatings_def split: if_splits)
  have keep: "namesAdult n sa' g q" if na: "namesAdult n sa g q" and q: "q \<noteq> ?k" for g q
  proof -
    from na obtain i where i: "i < n" "\<not> deleted (sa ! i)" "male (sa ! i) = g"
      "parentid (sa ! i) = -1" "stoat_id (sa ! i) = q"
      unfolding namesAdult_def by auto
    from i q have "i \<noteq> s" by auto
    moreover from i k0 have "parentid (sa ! i) \<noteq> ?k" by simp
    ultimately have "sa' ! i = sa ! i" using eff [rule_format, of i] by simp
    with i show ?thesis unfolding namesAdult_def by (intro exI [of _ i]) simp
  qed
  have refs': "ledgerRefs n sa' ?ma"
    unfolding ledgerRefs_def
  proof (intro allI impI)
    fix m assume m: "m < length ?ma" and a: "maleid (?ma ! m) \<noteq> -1"
    from m lenp have m': "m < length ma" by simp
    from act [OF m' a] refs m' keep
    show "namesAdult n sa' True (maleid (?ma ! m)) \<and> namesAdult n sa' False (femaleid (?ma ! m))"
      unfolding ledgerRefs_def by simp
  qed
  have ou': "orderedUnique ?ma"
    unfolding orderedUnique_def
  proof (intro allI impI)
    fix k k' assume k: "k < length ?ma" and k': "k' < length ?ma"
      and h: "maleid (?ma ! k) \<noteq> -1 \<and> maleid (?ma ! k') \<noteq> -1 \<and> maleid (?ma ! k) = maleid (?ma ! k')
        \<and> femaleid (?ma ! k) = femaleid (?ma ! k')"
    from k k' lenp have kk: "k < length ma" "k' < length ma" by simp_all
    from h act [OF kk(1)] act [OF kk(2)]
    have "maleid (ma ! k) \<noteq> -1 \<and> maleid (ma ! k') \<noteq> -1 \<and> maleid (ma ! k) = maleid (ma ! k')
        \<and> femaleid (ma ! k) = femaleid (ma ! k')" by simp
    with ou kk show "k = k'" unfolding orderedUnique_def by simp
  qed
  from n len ids' refs' ou' show ?thesis by (simp add: linv_def)
qed

lemma int32_id: "0 \<le> c \<Longrightarrow> c < 2 ^ 31 \<Longrightarrow> int32 c = c"
  by (simp add: int32_def)

lemma idsInv_kit_reuse:
  assumes ids: "idsInv n sa cid" and i: "i < n" "n \<le> length sa" "deleted (sa ! i)"
    and c: "0 \<le> cid" "cid < 2 ^ 31"
  shows "idsInv n (sa[i := newKit (sa ! i) x y b cid pid]) (cid + 1)"
proof -
  let ?sa = "sa[i := newKit (sa ! i) x y b cid pid]"
  from i have il: "i < length sa" by simp
  have kit: "\<not> deleted (?sa ! i)" "stoat_id (?sa ! i) = cid"
    using il c by (simp_all add: newKit_def int32_id)
  have other: "?sa ! j = sa ! j" if "j \<noteq> i" for j using that by simp
  note b = idsInvD1 [OF ids] and u = idsInvD2 [OF ids]
  have b': "0 \<le> stoat_id (?sa ! j) \<and> stoat_id (?sa ! j) < cid + 1" if "j < n" "\<not> deleted (?sa ! j)" for j
  proof (cases "j = i")
    case True with kit c show ?thesis by simp
  next
    case False
    with that b [of j] other [of j] show ?thesis by simp
  qed
  have u': "j = k" if "j < n" "k < n" "\<not> deleted (?sa ! j)" "\<not> deleted (?sa ! k)"
      "stoat_id (?sa ! j) = stoat_id (?sa ! k)" for j k
  proof (cases "j = i")
    case True
    show ?thesis
    proof (cases "k = i")
      case True with \<open>j = i\<close> show ?thesis by simp
    next
      case False
      with that True kit b [of k] other [of k] show ?thesis by simp
    qed
  next
    case False
    show ?thesis
    proof (cases "k = i")
      case True
      with that False kit b [of j] other [of j] show ?thesis by simp
    next
      case F2: False
      with that False u [of j k] other [of j] other [of k] show ?thesis by simp
    qed
  qed
  from c have c1: "0 \<le> cid + 1" by simp
  show ?thesis by (rule idsInvI) (rule c1, rule b', assumption+, rule u', assumption+)
qed

lemma idsInv_kit_append:
  assumes ids: "idsInv n sa cid" and n: "n < length sa" and c: "0 \<le> cid" "cid < 2 ^ 31"
  shows "idsInv (Suc n) (sa[n := newKit (sa ! n) x y b cid pid]) (cid + 1)"
proof -
  let ?sa = "sa[n := newKit (sa ! n) x y b cid pid]"
  have kit: "\<not> deleted (?sa ! n)" "stoat_id (?sa ! n) = cid"
    using n c by (simp_all add: newKit_def int32_id)
  have other: "?sa ! j = sa ! j" if "j \<noteq> n" for j using that by simp
  note b = idsInvD1 [OF ids] and u = idsInvD2 [OF ids]
  have b': "0 \<le> stoat_id (?sa ! j) \<and> stoat_id (?sa ! j) < cid + 1" if "j < Suc n" "\<not> deleted (?sa ! j)" for j
  proof (cases "j = n")
    case True with kit c show ?thesis by simp
  next
    case False
    with that b [of j] other [of j] show ?thesis by simp
  qed
  have u': "j = k" if "j < Suc n" "k < Suc n" "\<not> deleted (?sa ! j)" "\<not> deleted (?sa ! k)"
      "stoat_id (?sa ! j) = stoat_id (?sa ! k)" for j k
  proof (cases "j = n")
    case True
    show ?thesis
    proof (cases "k = n")
      case True with \<open>j = n\<close> show ?thesis by simp
    next
      case False
      with that True kit b [of k] other [of k] show ?thesis by simp
    qed
  next
    case False
    show ?thesis
    proof (cases "k = n")
      case True
      with that False kit b [of j] other [of j] show ?thesis by simp
    next
      case F2: False
      with that False u [of j k] other [of j] other [of k] show ?thesis by simp
    qed
  qed
  from c have c1: "0 \<le> cid + 1" by simp
  show ?thesis by (rule idsInvI) (rule c1, rule b', assumption+, rule u', assumption+)
qed

lemma reuseDeleted_cid_mono:
  "reuseDeleted R x y m js (sa, k, cid, rp) = (sa', k', cid', rp') \<Longrightarrow> cid \<le> cid'"
proof (induction js arbitrary: sa k cid rp)
  case Nil
  then show ?case by simp
next
  case (Cons i js)
  show ?case
  proof (cases "k > 0 \<and> deleted (sa ! i)")
    case True
    with Cons.prems have "reuseDeleted R x y m js
             (sa[i := newKit (sa ! i) x y (rnd_random R rp < 0.5) cid (stoat_id (sa ! m))],
              k - 1, cid + 1, rp + 1) = (sa', k', cid', rp')" by simp
    from Cons.IH [OF this] show ?thesis by simp
  next
    case False
    show ?thesis
    proof (cases "k > 0")
      case True
      with False Cons.prems have "reuseDeleted R x y m js (sa, k, cid, rp) = (sa', k', cid', rp')" by simp
      from Cons.IH [OF this] show ?thesis .
    next
      case F: False
      with Cons.prems show ?thesis by simp
    qed
  qed
qed

lemma reuseDeleted_ids:
  "reuseDeleted R x y m js (sa, k, cid, rp) = (sa', k', cid', rp') \<Longrightarrow> \<forall>i\<in>set js. i < n \<Longrightarrow>
   n \<le> length sa \<Longrightarrow> 0 \<le> cid \<Longrightarrow> cid' \<le> 2 ^ 31 \<Longrightarrow> idsInv n sa cid \<Longrightarrow> idsInv n sa' cid'"
proof (induction js arbitrary: sa k cid rp)
  case Nil
  then show ?case by simp
next
  case (Cons i js)
  from Cons.prems(2) have i: "i < n" and js: "\<forall>i\<in>set js. i < n" by simp_all
  show ?case
  proof (cases "k > 0 \<and> deleted (sa ! i)")
    case True
    let ?sa = "sa[i := newKit (sa ! i) x y (rnd_random R rp < 0.5) cid (stoat_id (sa ! m))]"
    from True Cons.prems(1) have r: "reuseDeleted R x y m js (?sa, k - 1, cid + 1, rp + 1) = (sa', k', cid', rp')"
      by simp
    from reuseDeleted_cid_mono [OF r] Cons.prems(5) have c: "cid < 2 ^ 31" by simp
    from idsInv_kit_reuse [OF Cons.prems(6) i Cons.prems(3) _ Cons.prems(4) c] True
    have ids: "idsInv n ?sa (cid + 1)" by simp
    from Cons.prems(3) have len: "n \<le> length ?sa" by simp
    from Cons.prems(4) have c0: "0 \<le> cid + 1" by simp
    from Cons.IH [OF r js len c0 Cons.prems(5) ids] show ?thesis .
  next
    case False
    show ?thesis
    proof (cases "k > 0")
      case True
      with False Cons.prems(1) have r: "reuseDeleted R x y m js (sa, k, cid, rp) = (sa', k', cid', rp')" by simp
      from Cons.IH [OF r js Cons.prems(3) Cons.prems(4) Cons.prems(5) Cons.prems(6)] show ?thesis .
    next
      case F: False
      with Cons.prems(1) have "sa' = sa" "cid' = cid" by simp_all
      with Cons.prems(6) show ?thesis by simp
    qed
  qed
qed

lemma appendKits_ids:
  "appendKits R x y m k (sa, n, cid, rp) = Inr (sa', n', cid', rp') \<Longrightarrow>
   0 \<le> cid \<Longrightarrow> cid' \<le> 2 ^ 31 \<Longrightarrow> idsInv n sa cid \<Longrightarrow> idsInv n' sa' cid'"
proof (induction k arbitrary: sa n cid rp)
  case 0
  then show ?case by simp
next
  case (Suc k)
  let ?sa = "sa[n := newKit (sa ! n) x y (rnd_random R rp < 0.5) cid (stoat_id (sa ! m))]"
  from Suc.prems(1) have n: "n < length sa"
    and r: "appendKits R x y m k (?sa, n + 1, cid + 1, rp + 1) = Inr (sa', n', cid', rp')"
    by (auto simp: Let_def split: if_splits)
  have mono: "appendKits R x y m k (s1, n1, c1, r1) = Inr (sa', n', cid', rp') \<Longrightarrow> c1 \<le> cid'" for s1 n1 c1 r1
  proof (induction k arbitrary: s1 n1 c1 r1)
    case 0 then show ?case by simp
  next
    case (Suc k)
    from Suc.prems have "appendKits R x y m k
       (s1[n1 := newKit (s1 ! n1) x y (rnd_random R r1 < 0.5) c1 (stoat_id (s1 ! m))], n1 + 1, c1 + 1, r1 + 1)
        = Inr (sa', n', cid', rp')"
      by (auto simp: Let_def split: if_splits)
    from Suc.IH [OF this] show ?case by simp
  qed
  from mono [OF r] Suc.prems(3) have c: "cid < 2 ^ 31" by simp
  from idsInv_kit_append [OF Suc.prems(4) n Suc.prems(2) c]
  have ids: "idsInv (n + 1) ?sa (cid + 1)" by simp
  from Suc.prems(2) have c0: "0 \<le> cid + 1" by simp
  from Suc.IH [OF r c0 Suc.prems(3) ids] show ?case .
qed

lemma idsInv_pregnancy:
  assumes ids: "idsInv n sa cid"
  shows "idsInv n (sa[m := (sa ! m)\<lparr>pregnant := p, pregnant_day := d\<rparr>]) cid"
proof -
  let ?sa = "sa[m := (sa ! m)\<lparr>pregnant := p, pregnant_day := d\<rparr>]"
  have f1: "deleted (?sa ! j) = deleted (sa ! j)" for j
    by (cases "m < length sa") (simp_all add: nth_list_update list_update_beyond)
  have f2: "stoat_id (?sa ! j) = stoat_id (sa ! j)" for j
    by (cases "m < length sa") (simp_all add: nth_list_update list_update_beyond)
  note f = f1 f2
  show ?thesis
  proof (rule idsInvI)
    show "0 \<le> cid" by (rule idsInvD0 [OF ids])
  next
    fix j assume "j < n" "\<not> deleted (?sa ! j)"
    with idsInvD1 [OF ids, of j] show "0 \<le> stoat_id (?sa ! j) \<and> stoat_id (?sa ! j) < cid"
      by (simp add: f)
  next
    fix j k assume "j < n" "k < n" "\<not> deleted (?sa ! j)" "\<not> deleted (?sa ! k)"
      "stoat_id (?sa ! j) = stoat_id (?sa ! k)"
    with idsInvD2 [OF ids, of j k] show "j = k" by (simp add: f)
  qed
qed

lemma appendKits_cid_mono:
  "appendKits R x y m k (s1, n1, c1, r1) = Inr (s2, n2, c2, r2) \<Longrightarrow> c1 \<le> c2"
proof (induction k arbitrary: s1 n1 c1 r1)
  case 0 then show ?case by simp
next
  case (Suc k)
  from Suc.prems have "appendKits R x y m k
     (s1[n1 := newKit (s1 ! n1) x y (rnd_random R r1 < 0.5) c1 (stoat_id (s1 ! m))], n1 + 1, c1 + 1, r1 + 1)
      = Inr (s2, n2, c2, r2)"
    by (auto simp: Let_def split: if_splits)
  from Suc.IH [OF this] show ?case by simp
qed

lemma doBirth_ids:
  assumes db: "doBirth R sa n m lam cid rp = Inr (sa', n', cid', rp')"
    and n: "n \<le> length sa" and c0: "0 \<le> cid" and c: "cid' \<le> 2 ^ 31" and ids: "idsInv n sa cid"
  shows "idsInv n' sa' cid'"
proof -
  let ?x = "xpos (sa ! m)" and ?y = "ypos (sa ! m)"
  from db obtain nKits where po: "poisson1 R rp lam = Inr nKits"
    by (cases "poisson1 R rp lam") (auto simp: doBirth_def)
  obtain sa1 k1 cid1 rp1 where ru: "reuseDeleted R ?x ?y m [0 ..< n] (sa, nKits, cid, rp + 1) = (sa1, k1, cid1, rp1)"
    by (cases "reuseDeleted R ?x ?y m [0 ..< n] (sa, nKits, cid, rp + 1)") auto
  from db po ru
  obtain sa2 where ap: "appendKits R ?x ?y m k1 (sa1, n, cid1, rp1) = Inr (sa2, n', cid', rp')"
    and sa': "sa' = sa2[m := (sa2 ! m)\<lparr>pregnant := False, pregnant_day := -1\<rparr>]"
    by (cases "appendKits R ?x ?y m k1 (sa1, n, cid1, rp1)") (auto simp: doBirth_def Let_def)
  from appendKits_cid_mono [OF ap] c have c1: "cid1 \<le> 2 ^ 31" by simp
  have "\<forall>i\<in>set [0 ..< n]. i < n" by simp
  from reuseDeleted_ids [OF ru this n c0 c1 ids] have ids1: "idsInv n sa1 cid1" .
  from reuseDeleted_cid_mono [OF ru] c0 have c10: "0 \<le> cid1" by simp
  from appendKits_ids [OF ap c10 c ids1] have "idsInv n' sa2 cid'" .
  with sa' show ?thesis by (simp add: idsInv_pregnancy)
qed

lemma sameIdentity_refl [simp]: "sameIdentity a a"
  by (simp add: sameIdentity_def)

lemma sameCore_sameIdentity: "sameCore a b \<Longrightarrow> sameIdentity a b"
  using sameCore_fields [of a b] by (simp add: sameIdentity_def)

lemma sameButPregnancy_sameIdentity: "sameButPregnancy a b \<Longrightarrow> sameIdentity a b"
  using sameButPregnancy_fields [of a b] by (simp add: sameIdentity_def)

lemma dispersalRel_sameIdentity: "dispersalRel P a b \<Longrightarrow> sameIdentity a b"
  by (simp add: dispersalRel_def sameIdentity_def)

lemma linv_birth:
  assumes inv: "linv n sa cid ma"
    and db: "doBirth R sa n m lam cid rp = Inr (sa', n', cid', rp')"
    and m: "\<not> deleted (sa ! m)" "m < n" and c: "cid' \<le> 2 ^ 31"
  shows "linv n' sa' cid' ma"
proof -
  from inv have n: "n \<le> length sa" and ids: "idsInv n sa cid" and refs: "ledgerRefs n sa ma"
    and ou: "orderedUnique ma" by (simp_all add: linv_def)
  from doBirth_effect [OF db m]
  have len: "length sa' = length sa" and nn: "n \<le> n'" and nl: "n \<le> length sa \<longrightarrow> n' \<le> length sa"
    and all: "\<And>j. (\<not> (n \<le> j \<and> j < n') \<and> sameButPregnancy (sa ! j) (sa' ! j))
               \<or> (j < n' \<and> (deleted (sa ! j) \<or> n \<le> j)
                  \<and> isKitOf (stoat_id (sa ! m)) (xpos (sa ! m)) (ypos (sa ! m)) cid cid' (sa ! j) (sa' ! j))"
    by auto
  from doBirth_ids [OF db n idsInvD0 [OF ids] c ids] have ids': "idsInv n' sa' cid'" .
  have keep: "namesAdult n' sa' g q" if na: "namesAdult n sa g q" for g q
  proof -
    from na obtain i where i: "i < n" "\<not> deleted (sa ! i)" "male (sa ! i) = g"
      "parentid (sa ! i) = -1" "stoat_id (sa ! i) = q"
      unfolding namesAdult_def by auto
    from all [of i] i have "sameButPregnancy (sa ! i) (sa' ! i)" by auto
    from sameButPregnancy_fields [OF this] i nn show ?thesis
      unfolding namesAdult_def by (intro exI [of _ i]) simp
  qed
  have refs': "ledgerRefs n' sa' ma"
    using refs keep unfolding ledgerRefs_def by blast
  from n nl len ids' refs' ou show ?thesis by (simp add: linv_def)
qed

lemma linv_initial:
  assumes n: "n \<le> length sa" and c: "int n \<le> 2 ^ 31"
    and seeded: "\<forall>j<n. \<not> deleted (sa ! j) \<and> stoat_id (sa ! j) = int32 (int j)"
    and free: "\<forall>e\<in>set ma. maleid e = -1"
  shows "linv n sa (int n) ma"
proof -
  have idj: "stoat_id (sa ! j) = int j" if "j < n" for j
    using seeded that c by (simp add: int32_id)
  have ids: "idsInv n sa (int n)"
  proof (rule idsInvI)
    show "0 \<le> int n" by simp
  next
    fix j assume "j < n" "\<not> deleted (sa ! j)"
    then show "0 \<le> stoat_id (sa ! j) \<and> stoat_id (sa ! j) < int n" by (simp add: idj)
  next
    fix j k assume "j < n" "k < n" "\<not> deleted (sa ! j)" "\<not> deleted (sa ! k)"
      "stoat_id (sa ! j) = stoat_id (sa ! k)"
    then show "j = k" by (simp add: idj)
  qed
  from free have fr: "maleid (ma ! m) = -1" if "m < length ma" for m using that by simp
  have refs: "ledgerRefs n sa ma" unfolding ledgerRefs_def using fr by simp
  have ou: "orderedUnique ma" unfolding orderedUnique_def using fr by simp
  from n ids refs ou show ?thesis by (simp add: linv_def)
qed

lemma initialState_ledger:
  assumes init: "initialState P R fuel sa0 nAdd ma0 pia0 rp = Inr st"
    and free: "\<forall>e\<in>set ma0. maleid e = -1" and c: "st_Current_Id st \<le> 2 ^ 31"
  shows "ledgerInv st"
proof -
  from initialState_effect [OF init]
  have n: "st_nStoats st = nat nAdd" and cid: "st_Current_Id st = nAdd" and pos: "0 < nAdd"
    and le: "st_nStoats st \<le> length (st_stoatArray st)" and ma: "st_matingArray st = ma0"
    and sd: "\<forall>j<st_nStoats st. seededSlot P j (st_stoatArray st ! j)" by simp_all
  from n cid pos have ci: "st_Current_Id st = int (st_nStoats st)" by simp
  from c ci have c': "int (st_nStoats st) \<le> 2 ^ 31" by simp
  from sd have sd': "\<forall>j<st_nStoats st. \<not> deleted (st_stoatArray st ! j)
      \<and> stoat_id (st_stoatArray st ! j) = int32 (int j)"
    by (simp add: seededSlot_def)
  from free ma have free': "\<forall>e\<in>set (st_matingArray st). maleid e = -1" by simp
  from linv_initial [OF le c' sd' free'] show ?thesis
    unfolding ledgerInv_def ci .
qed

lemma startOfDay_ledger:
  assumes sod: "startOfDay P R fuel day st = Inr st'" and inv: "ledgerInv st"
  shows "ledgerInv st'"
proof -
  from startOfDay_effect [OF sod]
  have e: "st_nStoats st' = st_nStoats st" "st_Current_Id st' = st_Current_Id st"
    "st_matingArray st' = st_matingArray st" "length (st_stoatArray st') = length (st_stoatArray st)"
    and d: "\<And>j. dispersalRel P (st_stoatArray st ! j) (st_stoatArray st' ! j)" by simp_all
  have fr: "\<forall>j<st_nStoats st. sameIdentity (st_stoatArray st ! j) (st_stoatArray st' ! j)"
    using dispersalRel_sameIdentity [OF d] by simp
  from linv_frame [OF inv [unfolded ledgerInv_def] e(4) fr] show ?thesis
    unfolding ledgerInv_def e .
qed

lemma endOfDay_ledger:
  assumes inv: "ledgerInv st"
  shows "ledgerInv (endOfDay st)"
proof -
  have m: "st_matingArray (endOfDay st) = map decrementMating (st_matingArray st)"
    by (simp add: endOfDay_def)
  from linv_decrement [OF inv [unfolded ledgerInv_def]] show ?thesis
    unfolding ledgerInv_def m by simp
qed

lemma processStoat_ledger:
  assumes ps: "processStoat P R fuel day hour s st = Inr st'"
    and s: "s < st_nStoats st" and live: "\<not> deleted (st_stoatArray st ! s)"
    and inv: "ledgerInv st" and c: "st_Current_Id st' \<le> 2 ^ 31"
  shows "ledgerInv st'"
proof -
  let ?sa = "st_stoatArray st"
  let ?n = "st_nStoats st" and ?cid = "st_Current_Id st" and ?ma = "st_matingArray st"
  let ?x = "xpos (?sa ! s)" and ?y = "ypos (?sa ! s)"
  let ?hb = "homerangeBehaviourOf (st_inEstrous st) ?sa (st_nStoats st) s"
  let ?sa1 = "?sa[s := (?sa ! s)\<lparr>homerange := ?hb\<rparr>]"
  let ?st1 = "st\<lparr>st_stoatArray := ?sa1\<rparr>"
  from processStoat_cases [OF ps] obtain mated st2 st3 killed rp where
    mob: "matingOrBirth P R day hour s ?x ?y ?st1 = Inr (mated, st2)"
    and ph: "pheromonePhase P s ?x ?y mated st2 = Inr st3"
    and kd: "killDecision P R day hour ?x ?y (st_rpos st3) = Inr (killed, rp)"
    and fin: "(killed \<and> st' = killStoat s (st3\<lparr>st_rpos := rp\<rparr>))
        \<or> (\<not> killed \<and> parentid (st_stoatArray st3 ! s) \<noteq> -1 \<and> st' = st3\<lparr>st_rpos := rp\<rparr>)
        \<or> (\<not> killed \<and> parentid (st_stoatArray st3 ! s) = -1
           \<and> moveStoat P R fuel s ?x ?y (home_x (?sa ! s)) (home_y (?sa ! s)) ?hb
                (st3\<lparr>st_rpos := rp\<rparr>) = Inr st')"
    by blast
  from inv have inv0: "linv ?n ?sa ?cid ?ma" by (simp add: ledgerInv_def)
  then have nle: "?n \<le> length ?sa" by (simp add: linv_def)
  have c01: "\<And>j. sameCore (?sa ! j) (?sa1 ! j)" by (simp add: nth_update_any)
  have live1: "\<not> deleted (?sa1 ! s)" using live sameCore_fields(1) [OF c01 [of s]] by simp
  have l1: "length ?sa1 = length ?sa" by simp
  have fr1: "\<forall>j<?n. sameIdentity (?sa ! j) (?sa1 ! j)"
    using c01 by (simp add: sameCore_sameIdentity)
  from linv_frame [OF inv0 l1 fr1] have inv1: "linv ?n ?sa1 ?cid ?ma" .
  from pheromonePhase_effect [OF ph] obtain pia' where st3: "st3 = st2\<lparr>st_pheromoneInteractionArray := pia'\<rparr>"
    by blast
  let ?st3r = "st3\<lparr>st_rpos := rp\<rparr>"
  have B: "st_stoatArray ?st3r = st_stoatArray st2" "st_nStoats ?st3r = st_nStoats st2"
    "st_Current_Id ?st3r = st_Current_Id st2" "st_stoatArray st3 = st_stoatArray st2"
    "st_matingArray ?st3r = st_matingArray st2"
    using st3 by simp_all
  have cEq: "st_Current_Id st' = st_Current_Id st2"
    using fin
  proof (elim disjE conjE)
    assume "st' = killStoat s ?st3r"
    then show ?thesis using B by (simp add: killStoat_def Let_def)
  next
    assume "st' = ?st3r"
    then show ?thesis using B by simp
  next
    assume mv: "moveStoat P R fuel s ?x ?y (home_x (?sa ! s)) (home_y (?sa ! s)) ?hb ?st3r = Inr st'"
    from moveStoat_effect [OF mv] show ?thesis using B by auto
  qed
  with c have c2: "st_Current_Id st2 \<le> 2 ^ 31" by simp
  \<comment> \<open>the invariant after the mating or the birth\<close>
  have A: "linv (st_nStoats st2) (st_stoatArray st2) (st_Current_Id st2) (st_matingArray st2)
     \<and> ?n \<le> st_nStoats st2 \<and> \<not> deleted (st_stoatArray st2 ! s)"
    using matingOrBirth_cases [OF mob]
  proof (elim disjE conjE exE)
    assume "st2 = ?st1"
    then show ?thesis using inv1 live1 by simp
  next
    fix sa' ma' rp'
    assume male1: "male (st_stoatArray ?st1 ! s)" and par1: "parentid (st_stoatArray ?st1 ! s) = -1"
      and dm: "doMaleMating R ?x ?y (stoat_id (st_stoatArray ?st1 ! s)) (st_stoatArray ?st1) (st_nStoats ?st1)
                (p_encounterDistance P) (st_matingArray ?st1) (p_habituationDays P) (int day)
                (p_probPregnacy P) (st_rpos ?st1) = Inr (mated, sa', ma', rp')"
      and st2: "st2 = ?st1\<lparr>st_stoatArray := sa', st_matingArray := ma', st_rpos := rp'\<rparr>"
    from male1 par1 have male1': "male (?sa1 ! s)" and par1': "parentid (?sa1 ! s) = -1" by simp_all
    from dm have dm': "doMaleMating R ?x ?y (stoat_id (?sa1 ! s)) ?sa1 ?n
                (p_encounterDistance P) ?ma (p_habituationDays P) (int day)
                (p_probPregnacy P) (st_rpos st) = Inr (mated, sa', ma', rp')" by simp
    from doMaleMating_effect [OF dm'] have len: "length sa' = length ?sa1"
      and fr: "\<And>j. sameButPregnancy (?sa1 ! j) (sa' ! j)"
      and mm: "(\<not> mated \<and> ma' = ?ma)
            \<or> (mated \<and> (\<exists>i<?n. \<exists>m. femaleEncountered ?x ?y (stoat_id (?sa1 ! s)) ?sa1 ?ma
                     (p_encounterDistance P) i \<and> firstFreeMating ?ma m
                  \<and> ma' = ?ma[m := (?ma ! m)\<lparr>maleid := stoat_id (?sa1 ! s), femaleid := stoat_id (?sa1 ! i),
                                             m_ndays := int32 (p_habituationDays P)\<rparr>]))"
      by auto
    have ma1: "linv ?n ?sa1 ?cid ma'"
      using mm
    proof (elim disjE conjE exE)
      assume "ma' = ?ma"
      with inv1 show ?thesis by simp
    next
      fix i m
      assume i: "i < ?n"
        and fe: "femaleEncountered ?x ?y (stoat_id (?sa1 ! s)) ?sa1 ?ma (p_encounterDistance P) i"
        and ff: "firstFreeMating ?ma m"
        and e: "ma' = ?ma[m := (?ma ! m)\<lparr>maleid := stoat_id (?sa1 ! s), femaleid := stoat_id (?sa1 ! i),
                                             m_ndays := int32 (p_habituationDays P)\<rparr>]"
      from linv_mating [OF inv1 s live1 male1' par1' i fe ff] e show ?thesis by simp
    qed
    have fr2: "\<forall>j<?n. sameIdentity (?sa1 ! j) (sa' ! j)"
      using fr by (simp add: sameButPregnancy_sameIdentity)
    from linv_frame [OF ma1 len fr2] have "linv ?n sa' ?cid ma'" .
    moreover have "\<not> deleted (sa' ! s)"
      using sameButPregnancy_fields(1) [OF fr [of s]] live1 by simp
    ultimately show ?thesis using st2 by simp
  next
    fix sa' n' cid' rp'
    assume db: "doBirth R (st_stoatArray ?st1) (st_nStoats ?st1) s (p_meanRecruits P) (st_Current_Id ?st1)
                (st_rpos ?st1) = Inr (sa', n', cid', rp')"
      and st2: "st2 = ?st1\<lparr>st_stoatArray := sa', st_nStoats := n', st_Current_Id := cid', st_rpos := rp'\<rparr>"
    from db have db': "doBirth R ?sa1 ?n s (p_meanRecruits P) ?cid (st_rpos st) = Inr (sa', n', cid', rp')"
      by simp
    from st2 c2 have c': "cid' \<le> 2 ^ 31" by simp
    from linv_birth [OF inv1 db' live1 s c'] have l2: "linv n' sa' cid' ?ma" .
    from doBirth_effect [OF db' live1 s]
    have nn: "?n \<le> n'"
      and all: "\<And>j. (\<not> (?n \<le> j \<and> j < n') \<and> sameButPregnancy (?sa1 ! j) (sa' ! j))
               \<or> (j < n' \<and> (deleted (?sa1 ! j) \<or> ?n \<le> j)
                  \<and> isKitOf (stoat_id (?sa1 ! s)) (xpos (?sa1 ! s)) (ypos (?sa1 ! s))
                       ?cid cid' (?sa1 ! j) (sa' ! j))"
      by auto
    from all [of s] live1 s have "sameButPregnancy (?sa1 ! s) (sa' ! s)" by auto
    from sameButPregnancy_fields(1) [OF this] live1 have "\<not> deleted (sa' ! s)" by simp
    with l2 nn st2 show ?thesis by simp
  qed
  then have inv2: "linv (st_nStoats st2) (st_stoatArray st2) (st_Current_Id st2) (st_matingArray st2)"
    and n2: "?n \<le> st_nStoats st2" and live2: "\<not> deleted (st_stoatArray st2 ! s)" by simp_all
  from s n2 have s2: "s < st_nStoats st2" by simp
  from inv2 have nl2: "st_nStoats st2 \<le> length (st_stoatArray st2)" by (simp add: linv_def)
  show ?thesis
    using fin
  proof (elim disjE conjE)
    assume st': "st' = killStoat s ?st3r"
    from s2 nl2 B have sl: "s < length (st_stoatArray ?st3r)" by simp
    note k = killStoat_effect [OF sl]
    have eff: "\<forall>j. st_stoatArray st' ! j =
        (if j = s \<or> (j < st_nStoats st2 \<and> j < length (st_stoatArray st2)
                       \<and> parentid (st_stoatArray st2 ! j) = stoat_id (st_stoatArray st2 ! s))
         then (st_stoatArray st2 ! j)\<lparr>deleted := True\<rparr> else st_stoatArray st2 ! j)"
      unfolding st' using k(8) unfolding B by simp
    have len: "length (st_stoatArray st') = length (st_stoatArray st2)"
      unfolding st' using k(7) unfolding B .
    have m: "st_matingArray st' = purgeMatings (stoat_id (st_stoatArray st2 ! s)) (st_matingArray st2)"
      unfolding st' using k(5) unfolding B .
    have nc: "st_nStoats st' = st_nStoats st2" "st_Current_Id st' = st_Current_Id st2"
      unfolding st' using k(1) k(2) unfolding B by simp_all
    from linv_kill [OF inv2 s2 live2 len eff] show ?thesis
      unfolding ledgerInv_def m nc .
  next
    assume "st' = ?st3r"
    with inv2 B show ?thesis by (simp add: ledgerInv_def)
  next
    assume mv: "moveStoat P R fuel s ?x ?y (home_x (?sa ! s)) (home_y (?sa ! s)) ?hb ?st3r = Inr st'"
    from moveStoat_effect [OF mv] obtain b nx ny rp' where
      st': "st' = ?st3r\<lparr>st_stoatArray := (st_stoatArray ?st3r)[s := (st_stoatArray ?st3r ! s)
                                 \<lparr>bearingT_1 := b, xpos := nx, ypos := ny\<rparr>],
                        st_rpos := rp'\<rparr>" by blast
    let ?sa2 = "st_stoatArray st2"
    let ?sa3 = "?sa2[s := (?sa2 ! s)\<lparr>bearingT_1 := b, xpos := nx, ypos := ny\<rparr>]"
    have f: "\<forall>j<st_nStoats st2. sameIdentity (?sa2 ! j) (?sa3 ! j)"
      by (simp add: nth_update_any sameIdentity_def)
    have l: "length ?sa3 = length ?sa2" by simp
    from linv_frame [OF inv2 l f] have "linv (st_nStoats st2) ?sa3 (st_Current_Id st2) (st_matingArray st2)" .
    then show ?thesis unfolding st' ledgerInv_def using B by simp
  qed
qed

lemma reachable_ledger: "reachable P st \<Longrightarrow> st_Current_Id st \<le> 2 ^ 31 \<longrightarrow> ledgerInv st"
proof (induction rule: reachable.induct)
  case (seeded R fuel sa0 nAdd ma0 pia0 rp st)
  show ?case
  proof
    assume "st_Current_Id st \<le> 2 ^ 31"
    from initialState_ledger [OF seeded(1) seeded(3) this] show "ledgerInv st" .
  qed
next
  case (turn st s R fuel day hour st')
  show ?case
  proof
    assume c: "st_Current_Id st' \<le> 2 ^ 31"
    from processStoat_wf [OF turn(4) turn(2) turn(3) reachable_wf [OF turn(1)]]
    have "st_Current_Id st \<le> st_Current_Id st'" by simp
    with c turn(5) have "ledgerInv st" by simp
    from processStoat_ledger [OF turn(4) turn(2) turn(3) this c] show "ledgerInv st'" .
  qed
next
  case (day_start st R fuel day st')
  show ?case
  proof
    assume c: "st_Current_Id st' \<le> 2 ^ 31"
    from startOfDay_effect [OF day_start(2)] have "st_Current_Id st' = st_Current_Id st" by simp
    with c day_start(3) have "ledgerInv st" by simp
    from startOfDay_ledger [OF day_start(2) this] show "ledgerInv st'" .
  qed
next
  case (day_end st)
  show ?case
  proof
    assume "st_Current_Id (endOfDay st) \<le> 2 ^ 31"
    with day_end(2) have "ledgerInv st" by simp
    then show "ledgerInv (endOfDay st)" by (rule endOfDay_ledger)
  qed
qed

lemma c5_seeded_init:
  "initialState c5_params rng_same 1 [deletedSlot, deletedSlot] 2 [freeMating, freeMating] [freeInteraction] 0
   = Inr c5_seeded"
  by (simp add: initialState_def createInitialStoats_def upt_0_2 c5_params_def params0_def rng_same_def
      rng0_def checkLocationIsOnIsland_def maskRead_def npRound_def seedStoat_def
      deletedSlot_def adultAt_def int32_def c5_seeded_def)

lemma c5_seeded_reachable: "reachable c5_params c5_seeded"
  by (rule reachable.seeded [OF c5_seeded_init])
     (simp_all add: deletedSlot_def adultAt_def freeMating_def freeInteraction_def)

lemma c5_day_start: "startOfDay c5_params rng_same 1 0 c5_seeded = Inr (c5_seeded\<lparr>st_inEstrous := True\<rparr>)"
  by (simp add: startOfDay_def inArray_def c5_params_def params0_def)

lemma c5_turn:
  "processStoat c5_params rng_same 1 0 0 1 (c5_seeded\<lparr>st_inEstrous := True\<rparr>) = Inr c5_mated"
  by (simp add: eval_defs c5_seeded_def c5_mated_def c5_params_def params0_def rng_same_def rng0_def
      moveStoat_def moveRound_def onLand_def checkLocationIsOnIsland_def maskRead_def npRound_def
      doMaleMating_def alreadyMatedWith_def impregnate_def checkForEstrousMatesAndDecoysInRadius_def)

lemma c5_mated_reachable: "reachable c5_params c5_mated"
  by (rule reachable.turn [OF reachable.day_start [OF c5_seeded_reachable c5_day_start] _ _ c5_turn])
     (simp_all add: c5_seeded_def adultAt_def)

text \<open>
  Claim C5. In every state a realisation passes through, as long as the id counter has
  not passed \<open>2^31\<close> (the ids are stored in 32 bits), no active entry of the mating
  table has \<open>maleid = femaleid\<close>, and no two active entries name the same pair of ids,
  in either order.
\<close>

theorem mating_ledger_unique:
  assumes "reachable P st" and "st_Current_Id st \<le> 2 ^ 31"
  shows "matingLedgerUnique (st_matingArray st)"
proof -
  from reachable_ledger [OF assms(1)] assms(2) have "ledgerInv st" by simp
  then show ?thesis unfolding ledgerInv_def by (rule linv_unique)
qed

text \<open>
  Claim C5, at the state after the seeded male's first turn in estrus: the table holds
  the active entry (male 1, female 0).
\<close>

theorem mating_ledger_unique_witness:
  "reachable c5_params c5_mated \<and> st_Current_Id c5_mated \<le> 2 ^ 31
   \<and> maleid (st_matingArray c5_mated ! 0) = 1 \<and> femaleid (st_matingArray c5_mated ! 0) = 0
   \<and> matingLedgerUnique (st_matingArray c5_mated)"
proof -
  have c: "st_Current_Id c5_mated \<le> 2 ^ 31" by (simp add: c5_mated_def c5_seeded_def)
  have e: "maleid (st_matingArray c5_mated ! 0) = 1 \<and> femaleid (st_matingArray c5_mated ! 0) = 0"
    by (simp add: c5_mated_def)
  from mating_ledger_unique [OF c5_mated_reachable c] c5_mated_reachable c e show ?thesis by simp
qed

end
